theory Spec2Isabelle
  imports Main
begin

section \<open>Python values, exceptions and the random source\<close>

text \<open>
  The exceptions the modelled functions can raise. A function that can raise returns
  a sum, \<open>Inl\<close> carrying the exception; \<open>and_then\<close> runs the rest of a block when
  nothing was raised.
\<close>

datatype py_error =
  KeyError string | IndexError | AttributeError | ValueError | OverflowError

definition and_then :: "py_error + 'a \<Rightarrow> ('a \<Rightarrow> py_error + 'b) \<Rightarrow> py_error + 'b" where
  "and_then m f = (case m of Inl e \<Rightarrow> Inl e | Inr x \<Rightarrow> f x)"

text \<open>
  A call that mutates its argument returns the result next to the mutated value. When
  the call raises inside a function that does not catch, the function is left and its
  local state with it.
\<close>

fun propagate :: "(py_error + 'a) \<times> 's \<Rightarrow> py_error + ('a \<times> 's)" where
  "propagate (Inl e, _) = Inl e"
| "propagate (Inr x, s) = Inr (x, s)"

text \<open>
  \<open>d[k]\<close> on a dictionary with string keys, and on a dictionary whose keys are the
  fields of a record: there the entry of key \<open>k\<close> is given, \<open>None\<close> when it is absent.
\<close>

definition getitem :: "(string \<rightharpoonup> 'v) \<Rightarrow> string \<Rightarrow> py_error + 'v" where
  "getitem d k = (case d k of None \<Rightarrow> Inl (KeyError k) | Some v \<Rightarrow> Inr v)"

definition getkey :: "'v option \<Rightarrow> string \<Rightarrow> py_error + 'v" where
  "getkey entry k = (case entry of None \<Rightarrow> Inl (KeyError k) | Some v \<Rightarrow> Inr v)"

text \<open>
  \<open>random.choice(seq)\<close>: the random source is an explicit draw \<open>r\<close>, any natural
  number; the element at position \<open>r mod len(seq)\<close> is returned, so every position of
  the sequence is the outcome of the same share of draws. An empty sequence raises
  \<open>IndexError\<close>. A function that draws several times takes a table of draws, one for
  each call of \<open>random.choice\<close> (the iteration and the field the draw is made for).
\<close>

definition choice :: "'a list \<Rightarrow> nat \<Rightarrow> py_error + 'a" where
  "choice seq r = (if seq = [] then Inl IndexError else Inr (seq ! (r mod length seq)))"

type_synonym draws = "nat \<Rightarrow> string \<Rightarrow> nat"

text \<open>
  A value read from a spreadsheet cell or from the custom JSON file: text, or the float
  \<open>NaN\<close> pandas gives a blank cell. \<open>NaN\<close> is truthy in Python, the empty string is
  not.
\<close>

datatype cell = NaN | Str string

fun truthy :: "cell \<Rightarrow> bool" where
  "truthy NaN = True"
| "truthy (Str s) = (s \<noteq> [])"

text \<open>
  \<open>str.strip()\<close> removes leading and trailing whitespace. A character stands for a
  code point below 256; these are the ones \<open>str.isspace\<close> accepts there.
\<close>

definition whitespace :: "char list" where
  "whitespace =
     [CHR 0x09, CHR 0x0A, CHR 0x0B, CHR 0x0C, CHR 0x0D, CHR 0x1C, CHR 0x1D, CHR 0x1E,
      CHR 0x1F, CHR 0x20, CHR 0x85, CHR 0xA0]"

definition isspace :: "char \<Rightarrow> bool" where
  "isspace c = (c \<in> set whitespace)"

definition strip :: "string \<Rightarrow> string" where
  "strip s = rev (dropWhile isspace (rev (dropWhile isspace s)))"

text \<open>
  \<open>str.title()\<close> on ASCII letters: a letter after a non-letter is upper case, any
  other letter lower case.
\<close>

definition ascii_lower :: "char list" where
  "ascii_lower = ''abcdefghijklmnopqrstuvwxyz''"

definition ascii_upper :: "char list" where
  "ascii_upper = ''ABCDEFGHIJKLMNOPQRSTUVWXYZ''"

definition upper :: "char \<Rightarrow> char" where
  "upper c = (case map_of (zip ascii_lower ascii_upper) c of Some u \<Rightarrow> u | None \<Rightarrow> c)"

definition lower :: "char \<Rightarrow> char" where
  "lower c = (case map_of (zip ascii_upper ascii_lower) c of Some l \<Rightarrow> l | None \<Rightarrow> c)"

fun title_aux :: "bool \<Rightarrow> string \<Rightarrow> string" where
  "title_aux prev [] = []"
| "title_aux prev (c # cs) =
     (if c \<in> set ascii_lower then (if prev then c else upper c) # title_aux True cs
      else if c \<in> set ascii_upper then (if prev then lower c else c) # title_aux True cs
      else c # title_aux False cs)"

definition title :: "string \<Rightarrow> string" where
  "title s = title_aux False s"

text \<open>\<open>str(i)\<close> for a single decimal digit, as the f-strings of the column names use it.\<close>

definition str_digit :: "nat \<Rightarrow> string" where
  "str_digit i = [''0123456789'' ! i]"

text \<open>
  A calendar date is its day number (\<open>date.toordinal()\<close>); \<open>datetime\<close> has no date
  after 9999-12-31, day 3652059, and adding a \<open>timedelta\<close> that passes it raises
  \<open>OverflowError\<close>. The shifts are never before their start date.
\<close>

definition max_ordinal :: int where
  "max_ordinal = 3652059"

definition add_days :: "int \<Rightarrow> int \<Rightarrow> py_error + int" where
  "add_days d n = (if d + n > max_ordinal then Inl OverflowError else Inr (d + n))"

section \<open>The variety selector and the daily generator (generator.py)\<close>

text \<open>
  \<open>self.content[content_type]\<close> for the narrative categories: a dictionary from the
  category name to its list of candidate strings. \<open>used_content\<close> is the dictionary of
  per-category usage histories.
\<close>

type_synonym pools = "string \<rightharpoonup> string list"
type_synonym used_content = "string \<rightharpoonup> string list"

text \<open>
  \<open>get_varied_content(content_type, used_content)\<close>, identical in
  \<open>LogbookGenerator\<close> and \<open>CustomLogbookGenerator\<close>. The dictionary is mutated
  in place, so the model returns it next to the result, also when the call raises
  (the reset of the history happens before \<open>random.choice\<close> can raise).
\<close>

definition get_varied_content ::
  "pools \<Rightarrow> string \<Rightarrow> used_content \<Rightarrow> nat \<Rightarrow> (py_error + string) \<times> used_content" where
  "get_varied_content content content_type used_content r =
     (case content content_type of
        None \<Rightarrow> (Inl (KeyError content_type), used_content)
      | Some available_content \<Rightarrow>
          (case used_content content_type of
             None \<Rightarrow> (Inl (KeyError content_type), used_content)
           | Some used \<Rightarrow>
               (let recent = (if length used \<ge> length available_content then [] else used);
                    unused = filter (\<lambda>item. item \<notin> set recent) available_content
                in case (if unused \<noteq> [] then choice unused r
                         else choice available_content r) of
                     Inl e \<Rightarrow> (Inl e, used_content(content_type \<mapsto> recent))
                   | Inr selected \<Rightarrow>
                       (let appended = recent @ [selected]
                        in (Inr selected,
                            used_content(content_type \<mapsto>
                              (if length appended > 3 then tl appended else appended)))))))"

text \<open>The histories \<open>generate_shifts\<close> starts from: one empty list per category.\<close>

definition used_content_init :: used_content where
  "used_content_init =
     [''special_requests'' \<mapsto> [], ''food_details'' \<mapsto> [], ''complaints'' \<mapsto> [],
      ''debrief'' \<mapsto> []]"

text \<open>
  Any sequence of selector calls, each with its category and its draw; the results are
  collected and the histories threaded through, as successive calls on the same
  dictionary do.
\<close>

fun run_calls ::
  "pools \<Rightarrow> used_content \<Rightarrow> (string \<times> nat) list \<Rightarrow> (py_error + string) list \<times> used_content" where
  "run_calls content used_content [] = ([], used_content)"
| "run_calls content used_content ((content_type, r) # calls) =
     (let (x, used1) = get_varied_content content content_type used_content r;
          (xs, used2) = run_calls content used1 calls
      in (x # xs, used2))"

text \<open>
  \<open>config.json\<close> and \<open>content_pools.json\<close>, by the keys the generators read. A key
  that is absent is \<open>None\<close>. A workflow entry is passed through unread; it is kept as
  the list of its key-value pairs.
\<close>

record config =
  cfg_start_date :: "string option"
  cfg_establishment :: "string option"
  cfg_menu_style :: "string option"
  cfg_shifts :: "(string \<rightharpoonup> (string \<rightharpoonup> string)) option"

type_synonym workflow_item = "(string \<times> string) list"

record content =
  prepared :: "(string \<rightharpoonup> string) option"
  narrative :: pools
  workflows :: "string \<rightharpoonup> workflow_item list"

text \<open>
  The dictionary built for one shift. The date is kept as its day number (the code
  stores its rendering \<open>%d/%m/%Y\<close>). The type of \<open>prepared_service\<close> is a parameter:
  text here, any JSON value in the custom generator.
\<close>

record 'p shift_data =
  shift_number :: nat
  establishment :: string
  date :: int
  shift_type :: string
  start_time :: string
  end_time :: string
  hours :: string
  menu_style :: string
  prepared_service :: 'p
  special_requests :: string
  food_details :: string
  complaints :: string
  debrief :: string
  workflow :: "workflow_item list"

text \<open>
  The four selector calls of one shift, in the order of the dictionary literal; the
  first one that raises ends the shift.
\<close>

definition varied_fields ::
  "pools \<Rightarrow> draws \<Rightarrow> nat \<Rightarrow> used_content \<Rightarrow>
   py_error + ((string \<times> string \<times> string \<times> string) \<times> used_content)" where
  "varied_fields content dr i used0 =
     and_then (propagate (get_varied_content content ''special_requests'' used0
                 (dr i ''special_requests''))) (\<lambda>(sr, used1).
     and_then (propagate (get_varied_content content ''food_details'' used1
                 (dr i ''food_details''))) (\<lambda>(fd, used2).
     and_then (propagate (get_varied_content content ''complaints'' used2
                 (dr i ''complaints''))) (\<lambda>(co, used3).
     and_then (propagate (get_varied_content content ''debrief'' used3
                 (dr i ''debrief''))) (\<lambda>(de, used4).
     Inr ((sr, fd, co, de), used4)))))"

text \<open>The body of the loop of \<open>LogbookGenerator.generate_shifts\<close> for index \<open>i\<close>.\<close>

definition shift_body ::
  "config \<Rightarrow> content \<Rightarrow> draws \<Rightarrow> int \<Rightarrow> nat \<Rightarrow> used_content \<Rightarrow>
   py_error + (string shift_data \<times> used_content)" where
  "shift_body cfg cont dr start i used0 =
     and_then (add_days start (int (i div 2))) (\<lambda>shift_date.
     let kind = (if i mod 2 = 0 then ''lunch'' else ''dinner'') in
     and_then (getkey (cfg_establishment cfg) ''establishment'') (\<lambda>est.
     and_then (getkey (cfg_shifts cfg) ''shifts'') (\<lambda>kinds.
     and_then (getitem kinds kind) (\<lambda>timing.
     and_then (getitem timing ''start_time'') (\<lambda>st.
     and_then (getitem timing ''end_time'') (\<lambda>et.
     and_then (getitem timing ''hours'') (\<lambda>hrs.
     and_then (getkey (cfg_menu_style cfg) ''menu_style'') (\<lambda>ms.
     and_then (getkey (prepared cont) ''prepared_service'') (\<lambda>preps.
     and_then (getitem preps kind) (\<lambda>prep.
     and_then (varied_fields (narrative cont) dr i used0) (\<lambda>((sr, fd, co, de), used4).
     and_then (getitem (workflows cont) (''workflow_'' @ kind)) (\<lambda>wf.
     Inr (\<lparr>shift_number = i + 1, establishment = est, date = shift_date,
            shift_type = title kind, start_time = st, end_time = et, hours = hrs,
            menu_style = ms, prepared_service = prep, special_requests = sr,
            food_details = fd, complaints = co, debrief = de, workflow = wf\<rparr>,
          used4)))))))))))))"

text \<open>The loop over the indices still to come, appending one shift each.\<close>

fun shifts_loop ::
  "config \<Rightarrow> content \<Rightarrow> draws \<Rightarrow> int \<Rightarrow> nat list \<Rightarrow> used_content \<Rightarrow>
   py_error + (string shift_data list \<times> used_content)" where
  "shifts_loop cfg cont dr start [] used0 = Inr ([], used0)"
| "shifts_loop cfg cont dr start (i # rest) used0 =
     and_then (shift_body cfg cont dr start i used0) (\<lambda>(s, used1).
     and_then (shifts_loop cfg cont dr start rest used1) (\<lambda>(ss, used2).
     Inr (s # ss, used2)))"

text \<open>
  \<open>LogbookGenerator.generate_shifts\<close>. \<open>datetime.strptime\<close> is the library's: it is
  a parameter, giving the day number of the date a string denotes or raising.
\<close>

definition generate_shifts ::
  "(string \<Rightarrow> py_error + int) \<Rightarrow> config \<Rightarrow> content \<Rightarrow> draws \<Rightarrow> py_error + string shift_data list" where
  "generate_shifts strptime cfg cont dr =
     and_then (getkey (cfg_start_date cfg) ''start_date'') (\<lambda>date_text.
     and_then (strptime date_text) (\<lambda>start.
     and_then (shifts_loop cfg cont dr start [0..<48] used_content_init) (\<lambda>(shifts, _).
     Inr shifts)))"

section \<open>The custom generator (generator\_custom.py)\<close>

text \<open>
  One record of \<open>shifts_data_custom.json\<close>: a dictionary from field names to values.
  The custom data is the dictionary of these records by their \<open>shift_number\<close>.
\<close>

type_synonym custom_shift = "string \<rightharpoonup> cell"
type_synonym custom_data = "nat \<rightharpoonup> custom_shift"

text \<open>
  One turn of the loop over the four fields in \<open>merge_custom_data\<close>:
  \<open>field in custom_shift and custom_shift[field].strip()\<close> keeps the custom text,
  anything else draws from the whole pool. A value that is not text has no \<open>strip\<close>.
\<close>

definition custom_field :: "pools \<Rightarrow> custom_shift \<Rightarrow> string \<Rightarrow> nat \<Rightarrow> py_error + string" where
  "custom_field content_pools custom_shift field r =
     (case custom_shift field of
        Some NaN \<Rightarrow> Inl AttributeError
      | Some (Str s) \<Rightarrow>
          if strip s \<noteq> [] then Inr s
          else and_then (getitem content_pools field) (\<lambda>pool. choice pool r)
      | None \<Rightarrow> and_then (getitem content_pools field) (\<lambda>pool. choice pool r))"

text \<open>
  \<open>merge_custom_data(custom_shift, shift_type)\<close>. The default of \<open>dict.get\<close> is an
  argument, so it is evaluated (and can raise) whether or not the key is present.
  The result is the dictionary of the five keys, as a tuple in their order.
\<close>

definition merge_custom_data ::
  "content \<Rightarrow> draws \<Rightarrow> nat \<Rightarrow> custom_shift \<Rightarrow> string \<Rightarrow>
   py_error + (cell \<times> string \<times> string \<times> string \<times> string)" where
  "merge_custom_data cont dr i custom_shift kind =
     and_then (getkey (prepared cont) ''prepared_service'') (\<lambda>preps.
     and_then (getitem preps kind) (\<lambda>dflt.
     let prep = (case custom_shift ''prepared_service'' of Some v \<Rightarrow> v | None \<Rightarrow> Str dflt) in
     and_then (custom_field (narrative cont) custom_shift ''special_requests''
                 (dr i ''special_requests'')) (\<lambda>sr.
     and_then (custom_field (narrative cont) custom_shift ''food_details''
                 (dr i ''food_details'')) (\<lambda>fd.
     and_then (custom_field (narrative cont) custom_shift ''complaints''
                 (dr i ''complaints'')) (\<lambda>co.
     and_then (custom_field (narrative cont) custom_shift ''debrief''
                 (dr i ''debrief'')) (\<lambda>de.
     Inr (prep, sr, fd, co, de)))))))"

text \<open>\<open>generate_automatic_data(shift_type, used_content)\<close>.\<close>

definition generate_automatic_data ::
  "content \<Rightarrow> draws \<Rightarrow> nat \<Rightarrow> string \<Rightarrow> used_content \<Rightarrow>
   py_error + ((cell \<times> string \<times> string \<times> string \<times> string) \<times> used_content)" where
  "generate_automatic_data cont dr i kind used0 =
     and_then (getkey (prepared cont) ''prepared_service'') (\<lambda>preps.
     and_then (getitem preps kind) (\<lambda>prep.
     and_then (varied_fields (narrative cont) dr i used0) (\<lambda>((sr, fd, co, de), used4).
     Inr ((Str prep, sr, fd, co, de), used4))))"

text \<open>The body of the loop of \<open>CustomLogbookGenerator.generate_shifts\<close> for index \<open>i\<close>.\<close>

definition custom_shift_body ::
  "config \<Rightarrow> content \<Rightarrow> custom_data \<Rightarrow> draws \<Rightarrow> int \<Rightarrow> nat \<Rightarrow> used_content \<Rightarrow>
   py_error + (cell shift_data \<times> used_content)" where
  "custom_shift_body cfg cont custom dr start i used0 =
     (let number = i + 1 in
     and_then (add_days start (int (i div 2))) (\<lambda>shift_date.
     let kind = (if i mod 2 = 0 then ''lunch'' else ''dinner'') in
     and_then (getkey (cfg_establishment cfg) ''establishment'') (\<lambda>est.
     and_then (getkey (cfg_shifts cfg) ''shifts'') (\<lambda>kinds.
     and_then (getitem kinds kind) (\<lambda>timing.
     and_then (getitem timing ''start_time'') (\<lambda>st.
     and_then (getitem timing ''end_time'') (\<lambda>et.
     and_then (getitem timing ''hours'') (\<lambda>hrs.
     and_then (getkey (cfg_menu_style cfg) ''menu_style'') (\<lambda>ms.
     and_then (getitem (workflows cont) (''workflow_'' @ kind)) (\<lambda>wf.
     and_then
       (case custom number of
          Some custom_shift \<Rightarrow>
            and_then (merge_custom_data cont dr i custom_shift kind) (\<lambda>d. Inr (d, used0))
        | None \<Rightarrow> generate_automatic_data cont dr i kind used0)
       (\<lambda>((prep, sr, fd, co, de), used4).
     Inr (\<lparr>shift_number = number, establishment = est, date = shift_date,
            shift_type = title kind, start_time = st, end_time = et, hours = hrs,
            menu_style = ms, prepared_service = prep, special_requests = sr,
            food_details = fd, complaints = co, debrief = de, workflow = wf\<rparr>,
          used4))))))))))))"

fun custom_shifts_loop ::
  "config \<Rightarrow> content \<Rightarrow> custom_data \<Rightarrow> draws \<Rightarrow> int \<Rightarrow> nat list \<Rightarrow> used_content \<Rightarrow>
   py_error + (cell shift_data list \<times> used_content)" where
  "custom_shifts_loop cfg cont custom dr start [] used0 = Inr ([], used0)"
| "custom_shifts_loop cfg cont custom dr start (i # rest) used0 =
     and_then (custom_shift_body cfg cont custom dr start i used0) (\<lambda>(s, used1).
     and_then (custom_shifts_loop cfg cont custom dr start rest used1) (\<lambda>(ss, used2).
     Inr (s # ss, used2)))"

text \<open>\<open>CustomLogbookGenerator.generate_shifts\<close>.\<close>

definition custom_generate_shifts ::
  "(string \<Rightarrow> py_error + int) \<Rightarrow> config \<Rightarrow> content \<Rightarrow> custom_data \<Rightarrow> draws \<Rightarrow>
   py_error + cell shift_data list" where
  "custom_generate_shifts strptime cfg cont custom dr =
     and_then (getkey (cfg_start_date cfg) ''start_date'') (\<lambda>date_text.
     and_then (strptime date_text) (\<lambda>start.
     and_then (custom_shifts_loop cfg cont custom dr start [0..<48] used_content_init)
       (\<lambda>(shifts, _). Inr shifts)))"

section \<open>The recipe rotation (logbook\_generator.py)\<close>

text \<open>
  \<open>_choose_unique(item_list, history, day, gap)\<close>: the history maps a recipe to the
  day it was last chosen; it is mutated in place and returned next to the result.
\<close>

type_synonym day_history = "string \<rightharpoonup> int"

definition choose_unique ::
  "string list \<Rightarrow> day_history \<Rightarrow> int \<Rightarrow> int \<Rightarrow> nat \<Rightarrow> (py_error + string) \<times> day_history" where
  "choose_unique item_list history day gap r =
     (let available =
            filter (\<lambda>x. case history x of None \<Rightarrow> True | Some d \<Rightarrow> day - d \<ge> gap) item_list;
          history1 = (if available = [] then Map.empty else history);
          available1 = (if available = [] then item_list else available)
      in case choice available1 r of
           Inl e \<Rightarrow> (Inl e, history1)
         | Inr c \<Rightarrow> (Inr c, history1(c \<mapsto> day)))"

definition get_observation :: "string \<Rightarrow> string" where
  "get_observation shift =
     (if shift = ''Preparation'' then ''General mise en place for service.''
      else if shift = ''Sauce'' then ''Sauce station duties following recipes.''
      else ''Garnish and finishing touches during service.'')"

record day_data =
  shift :: string
  protein :: string
  sauce :: string
  accompaniment :: string
  obs :: string

text \<open>The three histories of \<open>generate_shift_data\<close>, one per category.\<close>

record histories =
  h_proteins :: day_history
  h_sauces :: day_history
  h_accompaniments :: day_history

definition pattern :: "string list" where
  "pattern = [''Preparation'', ''Sauce'', ''Garnish'']"

definition rotation :: int where
  "rotation = 5"

text \<open>The body of the loop of \<open>generate_shift_data\<close> for one day; \<open>gap\<close> is the default 8.\<close>

definition day_body ::
  "(string \<rightharpoonup> string list) \<Rightarrow> draws \<Rightarrow> int \<Rightarrow> histories \<Rightarrow> py_error + (day_data \<times> histories)" where
  "day_body recipes dr day hs =
     (let kind = pattern ! nat (((day - 1) div rotation) mod int (length pattern)) in
      and_then (getitem recipes ''proteins'') (\<lambda>ps.
      and_then (propagate (choose_unique ps (h_proteins hs) day 8
                  (dr (nat day) ''proteins''))) (\<lambda>(p, hp).
      and_then (getitem recipes ''sauces'') (\<lambda>ss.
      and_then (propagate (choose_unique ss (h_sauces hs) day 8
                  (dr (nat day) ''sauces''))) (\<lambda>(s, hs1).
      and_then (getitem recipes ''accompaniments'') (\<lambda>acs.
      and_then (propagate (choose_unique acs (h_accompaniments hs) day 8
                  (dr (nat day) ''accompaniments''))) (\<lambda>(a, ha).
      Inr (\<lparr>shift = kind, protein = p, sauce = s, accompaniment = a,
             obs = get_observation kind\<rparr>,
           \<lparr>h_proteins = hp, h_sauces = hs1, h_accompaniments = ha\<rparr>))))))))"

fun days_loop ::
  "(string \<rightharpoonup> string list) \<Rightarrow> draws \<Rightarrow> int list \<Rightarrow> histories \<Rightarrow> py_error + day_data list" where
  "days_loop recipes dr [] hs = Inr []"
| "days_loop recipes dr (day # rest) hs =
     and_then (day_body recipes dr day hs) (\<lambda>(d, hs1).
     and_then (days_loop recipes dr rest hs1) (\<lambda>ds. Inr (d # ds)))"

text \<open>\<open>generate_shift_data(recipes, days)\<close>: the days are \<open>range(1, days + 1)\<close>.\<close>

definition generate_shift_data ::
  "(string \<rightharpoonup> string list) \<Rightarrow> int \<Rightarrow> draws \<Rightarrow> py_error + day_data list" where
  "generate_shift_data recipes days dr =
     days_loop recipes dr [1..days]
       \<lparr>h_proteins = Map.empty, h_sauces = Map.empty, h_accompaniments = Map.empty\<rparr>"

section \<open>The spreadsheet processor (csv\_processor.py)\<close>

text \<open>
  A row of the data frame: a dictionary from column names to cells. The data frame is
  the list of its rows, the index of a row its position.
  \<open>pd.isna(v) or v == ''\<close> is the test for a blank cell.
\<close>

type_synonym row = "string \<rightharpoonup> cell"

definition blank :: "cell \<Rightarrow> bool" where
  "blank v = (v = NaN \<or> v = Str [])"

text \<open>
  One \<open>if\<close> of \<open>fill_missing_data\<close>: the test reads the row as \<open>iterrows\<close> gave it,
  the assignment writes the copy of the data frame.
\<close>

definition fill_cell ::
  "pools \<Rightarrow> row \<Rightarrow> string \<Rightarrow> string \<Rightarrow> nat \<Rightarrow> row \<Rightarrow> py_error + row" where
  "fill_cell content_pools row col key r filled =
     and_then (getitem row col) (\<lambda>v.
     if blank v
     then and_then (getitem content_pools key) (\<lambda>pool.
          and_then (choice pool r) (\<lambda>x. Inr (filled(col \<mapsto> Str x))))
     else Inr filled)"

definition fill_row :: "pools \<Rightarrow> draws \<Rightarrow> nat \<Rightarrow> row \<Rightarrow> py_error + row" where
  "fill_row content_pools dr index row =
     and_then (fill_cell content_pools row ''food_details'' ''food_details''
                 (dr index ''food_details'') row) (\<lambda>f1.
     and_then (fill_cell content_pools row ''special_requests'' ''special_requests''
                 (dr index ''special_requests'') f1) (\<lambda>f2.
     and_then (fill_cell content_pools row ''complaints_problems'' ''problems''
                 (dr index ''complaints_problems'') f2) (\<lambda>f3.
     and_then (fill_cell content_pools row ''solutions_implemented'' ''solutions''
                 (dr index ''solutions_implemented'') f3) (\<lambda>f4.
     fill_cell content_pools row ''debrief_learnings'' ''learnings''
                 (dr index ''debrief_learnings'') f4))))"

fun fill_rows :: "pools \<Rightarrow> draws \<Rightarrow> nat \<Rightarrow> row list \<Rightarrow> py_error + row list" where
  "fill_rows content_pools dr index [] = Inr []"
| "fill_rows content_pools dr index (row # rows) =
     and_then (fill_row content_pools dr index row) (\<lambda>f.
     and_then (fill_rows content_pools dr (index + 1) rows) (\<lambda>fs. Inr (f # fs)))"

text \<open>\<open>CSVProcessor.fill_missing_data(df)\<close>.\<close>

definition fill_missing_data :: "pools \<Rightarrow> draws \<Rightarrow> row list \<Rightarrow> py_error + row list" where
  "fill_missing_data content_pools dr df = fill_rows content_pools dr 0 df"

text \<open>
  The manual and automatic counts of \<open>generate_summary_report\<close>. \<open>any\<close> stops at the
  first column whose cell is one of the candidates of its pool
  (\<open>self.content_pools.get(key, [])\<close>).
\<close>

definition report_columns :: "(string \<times> string) list" where
  "report_columns =
     [(''food_details'', ''food_details''), (''special_requests'', ''special_requests''),
      (''complaints_problems'', ''problems''), (''solutions_implemented'', ''solutions''),
      (''debrief_learnings'', ''learnings'')]"

fun cell_in :: "cell \<Rightarrow> string list \<Rightarrow> bool" where
  "cell_in NaN pool = False"
| "cell_in (Str s) pool = (s \<in> set pool)"

fun any_in_pool :: "pools \<Rightarrow> row \<Rightarrow> (string \<times> string) list \<Rightarrow> py_error + bool" where
  "any_in_pool content_pools row [] = Inr False"
| "any_in_pool content_pools row ((col, key) # rest) =
     and_then (getitem row col) (\<lambda>v.
     if cell_in v (case content_pools key of None \<Rightarrow> [] | Some pool \<Rightarrow> pool) then Inr True
     else any_in_pool content_pools row rest)"

text \<open>The loop over the rows: the pair is \<open>(manual_count, auto_count)\<close>.\<close>

fun count_rows :: "pools \<Rightarrow> row list \<Rightarrow> nat \<times> nat \<Rightarrow> py_error + nat \<times> nat" where
  "count_rows content_pools [] counts = Inr counts"
| "count_rows content_pools (row # rows) (manual_count, auto_count) =
     and_then (any_in_pool content_pools row report_columns) (\<lambda>b.
     if b then count_rows content_pools rows (manual_count, auto_count + 1)
     else count_rows content_pools rows (manual_count + 1, auto_count))"

text \<open>
  \<open>generate_summary_report(df)\<close>: the numbers it writes. The column index of the data
  frame is given next to its rows: \<open>df['shift_type']\<close> raises \<open>KeyError\<close> when the
  frame has no such column, whether or not it has rows, and is read twice before the
  loop over the rows.
\<close>

record summary =
  rep_total :: nat
  rep_lunch :: nat
  rep_dinner :: nat
  rep_manual :: nat
  rep_auto :: nat

definition column :: "string list \<Rightarrow> row list \<Rightarrow> string \<Rightarrow> py_error + cell list" where
  "column columns df name =
     (if name \<in> set columns
      then Inr (map (\<lambda>row. case row name of None \<Rightarrow> NaN | Some v \<Rightarrow> v) df)
      else Inl (KeyError name))"

definition generate_summary_report ::
  "pools \<Rightarrow> string list \<Rightarrow> row list \<Rightarrow> py_error + summary" where
  "generate_summary_report content_pools columns df =
     (let total = length df in
      and_then (column columns df ''shift_type'') (\<lambda>kinds1.
      let lunch = length (filter (\<lambda>v. v = Str ''lunch'') kinds1) in
      and_then (column columns df ''shift_type'') (\<lambda>kinds2.
      let dinner = length (filter (\<lambda>v. v = Str ''dinner'') kinds2) in
      and_then (count_rows content_pools df (0, 0)) (\<lambda>(manual, auto).
      Inr \<lparr>rep_total = total, rep_lunch = lunch, rep_dinner = dinner,
           rep_manual = manual, rep_auto = auto\<rparr>))))"

section \<open>The complete spreadsheet processor (csv\_processor\_completo.py)\<close>

text \<open>\<open>self.config.get(key, default)\<close> on the configuration dictionary.\<close>

definition config_get :: "(string \<rightharpoonup> string) \<Rightarrow> string \<Rightarrow> string \<Rightarrow> string" where
  "config_get cfg k dflt = (case cfg k of None \<Rightarrow> dflt | Some v \<Rightarrow> v)"

text \<open>The first two \<open>if\<close>s of \<open>fill_missing_data\<close>: a blank cell takes the configured text.\<close>

definition fill_basic ::
  "(string \<rightharpoonup> string) \<Rightarrow> row \<Rightarrow> string \<Rightarrow> string \<Rightarrow> row \<Rightarrow> py_error + row" where
  "fill_basic cfg row col dflt filled =
     and_then (getitem row col) (\<lambda>v.
     if blank v then Inr (filled(col \<mapsto> Str (config_get cfg col dflt))) else Inr filled)"

definition content_fields :: "(string \<times> string) list" where
  "content_fields =
     [(''prepared_for_service'', ''prepared_for_service''),
      (''special_requests'', ''special_requests''),
      (''food_details'', ''food_details''),
      (''complaints_problems'', ''complaints_problems''),
      (''solutions_implemented'', ''solutions_implemented''),
      (''debrief_learnings'', ''debrief_learnings''),
      (''handover_completed'', ''handover_completed''),
      (''customer_feedback'', ''customer_feedback'')]"

text \<open>The loop over \<open>content_fields.items()\<close>.\<close>

fun fill_content ::
  "pools \<Rightarrow> draws \<Rightarrow> nat \<Rightarrow> row \<Rightarrow> (string \<times> string) list \<Rightarrow> row \<Rightarrow> py_error + row" where
  "fill_content content_pools dr index row [] filled = Inr filled"
| "fill_content content_pools dr index row ((field, pool_key) # rest) filled =
     and_then (fill_cell content_pools row field pool_key (dr index field) filled) (\<lambda>f.
     fill_content content_pools dr index row rest f)"

definition base_times_lunch :: "string list" where
  "base_times_lunch =
     [''10:30'', ''11:00'', ''12:00'', ''13:00'', ''14:00'', ''15:00'', ''15:30'', ''16:00'']"

definition base_times_dinner :: "string list" where
  "base_times_dinner =
     [''16:00'', ''17:00'', ''18:00'', ''19:00'', ''20:00'', ''21:00'', ''21:30'', ''22:00'']"

text \<open>
  The body of the loop over the workflow lines, \<open>i\<close> from 1 to 8: only the timeline
  cell is tested, and all four cells of the line are assigned when it is blank.
\<close>

definition fill_workflow_line ::
  "pools \<Rightarrow> draws \<Rightarrow> nat \<Rightarrow> row \<Rightarrow> nat \<Rightarrow> row \<Rightarrow> py_error + row" where
  "fill_workflow_line content_pools dr index row i filled =
     (let timeline_col = ''workflow_timeline_'' @ str_digit i;
          task_col = ''workflow_task_'' @ str_digit i;
          equipment_col = ''workflow_equipment_'' @ str_digit i;
          communication_col = ''workflow_communication_'' @ str_digit i
      in
      and_then (getitem row timeline_col) (\<lambda>v.
      if blank v
      then and_then (getitem row ''shift_type'') (\<lambda>kind.
           let base_times = (if kind = Str ''lunch'' then base_times_lunch else base_times_dinner) in
           if i \<le> length base_times
           then and_then (getitem content_pools ''workflow_tasks'') (\<lambda>tasks.
                and_then (choice tasks (dr index task_col)) (\<lambda>task.
                and_then (getitem content_pools ''workflow_equipment'') (\<lambda>equipments.
                and_then (choice equipments (dr index equipment_col)) (\<lambda>equipment.
                and_then (getitem content_pools ''workflow_communication'') (\<lambda>communications.
                and_then (choice communications (dr index communication_col)) (\<lambda>communication.
                Inr (filled(timeline_col \<mapsto> Str (base_times ! (i - 1)),
                            task_col \<mapsto> Str task,
                            equipment_col \<mapsto> Str equipment,
                            communication_col \<mapsto> Str communication))))))))
           else Inr filled)
      else Inr filled))"

fun fill_workflow ::
  "pools \<Rightarrow> draws \<Rightarrow> nat \<Rightarrow> row \<Rightarrow> nat list \<Rightarrow> row \<Rightarrow> py_error + row" where
  "fill_workflow content_pools dr index row [] filled = Inr filled"
| "fill_workflow content_pools dr index row (i # rest) filled =
     and_then (fill_workflow_line content_pools dr index row i filled) (\<lambda>f.
     fill_workflow content_pools dr index row rest f)"

text \<open>One turn of the loop over the rows of \<open>CSVProcessorCompleto.fill_missing_data\<close>.\<close>

definition completo_fill_row ::
  "(string \<rightharpoonup> string) \<Rightarrow> pools \<Rightarrow> draws \<Rightarrow> nat \<Rightarrow> row \<Rightarrow> py_error + row" where
  "completo_fill_row cfg content_pools dr index row =
     and_then (fill_basic cfg row ''establishment'' ''Restaurant Name'' row) (\<lambda>f1.
     and_then (fill_basic cfg row ''menu_style'' (CHR 0xE0 # '' la carte'') f1) (\<lambda>f2.
     and_then (fill_content content_pools dr index row content_fields f2) (\<lambda>f3.
     fill_workflow content_pools dr index row [1..<9] f3)))"

fun completo_fill_rows ::
  "(string \<rightharpoonup> string) \<Rightarrow> pools \<Rightarrow> draws \<Rightarrow> nat \<Rightarrow> row list \<Rightarrow> py_error + row list" where
  "completo_fill_rows cfg content_pools dr index [] = Inr []"
| "completo_fill_rows cfg content_pools dr index (row # rows) =
     and_then (completo_fill_row cfg content_pools dr index row) (\<lambda>f.
     and_then (completo_fill_rows cfg content_pools dr (index + 1) rows) (\<lambda>fs. Inr (f # fs)))"

definition completo_fill_missing_data ::
  "(string \<rightharpoonup> string) \<Rightarrow> pools \<Rightarrow> draws \<Rightarrow> row list \<Rightarrow> py_error + row list" where
  "completo_fill_missing_data cfg content_pools dr df = completo_fill_rows cfg content_pools dr 0 df"

text \<open>
  The workflow table \<open>generate_documents\<close> hands to \<open>create_document\<close>:
  \<open>row.get(col, '')\<close> for the four cells of each line, the line kept when
  \<open>timeline and task\<close> is truthy.
\<close>

record workflow_line =
  timeline :: cell
  task :: cell
  equipment :: cell
  communication :: cell

definition row_get :: "row \<Rightarrow> string \<Rightarrow> cell" where
  "row_get row col = (case row col of None \<Rightarrow> Str [] | Some v \<Rightarrow> v)"

definition workflow_line_of :: "row \<Rightarrow> nat \<Rightarrow> workflow_line" where
  "workflow_line_of row i =
     \<lparr>timeline = row_get row (''workflow_timeline_'' @ str_digit i),
      task = row_get row (''workflow_task_'' @ str_digit i),
      equipment = row_get row (''workflow_equipment_'' @ str_digit i),
      communication = row_get row (''workflow_communication_'' @ str_digit i)\<rparr>"

definition workflow_data :: "row \<Rightarrow> workflow_line list" where
  "workflow_data row =
     filter (\<lambda>l. truthy (timeline l) \<and> truthy (task l)) (map (workflow_line_of row) [1..<9])"

section \<open>The selector as the specification words it\<close>

text \<open>
  The steps of the specification, one definition each: the recent values (cleared when
  there are at least as many as candidates), the allowed candidates (the pool minus the
  recent values, by value, or the full pool), and the bounded append.
\<close>

definition spec_recent :: "string list \<Rightarrow> string list \<Rightarrow> string list" where
  "spec_recent pool history = (if length history \<ge> length pool then [] else history)"

definition spec_allowed :: "string list \<Rightarrow> string list \<Rightarrow> string list" where
  "spec_allowed pool recent =
     (let difference = filter (\<lambda>x. x \<notin> set recent) pool
      in if difference = [] then pool else difference)"

definition spec_append :: "nat \<Rightarrow> string list \<Rightarrow> string \<Rightarrow> string list" where
  "spec_append bound history v =
     (let h = history @ [v] in if length h > bound then tl h else h)"

section \<open>The scheduler as the specification words it\<close>

text \<open>
  \<open>schedule(start_date, count, kinds, slots_per_day)\<close>: slot \<open>i\<close> (from 0) has index
  \<open>i + 1\<close>, date \<open>start_date + floor(i / slots_per_day)\<close> and a kind given by the
  rotation rule, simple alternation or block rotation.
\<close>

definition spec_alternation :: "string list \<Rightarrow> nat \<Rightarrow> string" where
  "spec_alternation kinds i = kinds ! (i mod length kinds)"

definition spec_block_rotation :: "nat \<Rightarrow> string list \<Rightarrow> nat \<Rightarrow> string" where
  "spec_block_rotation block_size kinds i = kinds ! ((i div block_size) mod length kinds)"

definition spec_schedule ::
  "int \<Rightarrow> nat \<Rightarrow> nat \<Rightarrow> (nat \<Rightarrow> string) \<Rightarrow> (nat \<times> int \<times> string) list" where
  "spec_schedule start_date count slots_per_day kind_of =
     map (\<lambda>i. (i + 1, start_date + int (i div slots_per_day), kind_of i)) [0..<count]"

text \<open>The index, date and kind of an assembled shift.\<close>

definition slot_of :: "'p shift_data \<Rightarrow> nat \<times> int \<times> string" where
  "slot_of s = (shift_number s, date s, shift_type s)"

section \<open>What the daily generator needs to return\<close>

text \<open>
  The keys \<open>generate_shifts\<close> reads for a shift of one kind, and the four pools of the
  selector, each with a candidate.
\<close>

definition kind_configured :: "config \<Rightarrow> content \<Rightarrow> string \<Rightarrow> bool" where
  "kind_configured cfg cont kind =
     (case cfg_shifts cfg of
        None \<Rightarrow> False
      | Some kinds \<Rightarrow>
          (case kinds kind of
             None \<Rightarrow> False
           | Some timing \<Rightarrow>
               timing ''start_time'' \<noteq> None \<and> timing ''end_time'' \<noteq> None \<and>
               timing ''hours'' \<noteq> None \<and>
               (case prepared cont of None \<Rightarrow> False | Some preps \<Rightarrow> preps kind \<noteq> None) \<and>
               workflows cont (''workflow_'' @ kind) \<noteq> None))"

definition has_candidates :: "pools \<Rightarrow> string \<Rightarrow> bool" where
  "has_candidates content_pools category =
     (case content_pools category of None \<Rightarrow> False | Some pool \<Rightarrow> pool \<noteq> [])"

definition inputs_complete :: "config \<Rightarrow> content \<Rightarrow> bool" where
  "inputs_complete cfg cont =
     (cfg_establishment cfg \<noteq> None \<and> cfg_menu_style cfg \<noteq> None \<and>
      kind_configured cfg cont ''lunch'' \<and> kind_configured cfg cont ''dinner'' \<and>
      has_candidates (narrative cont) ''special_requests'' \<and>
      has_candidates (narrative cont) ''food_details'' \<and>
      has_candidates (narrative cont) ''complaints'' \<and>
      has_candidates (narrative cont) ''debrief'')"

section \<open>Provenance as the specification words it\<close>

text \<open>
  A field is resolved from the override when its cell is supplied, from the pool when
  its cell is blank. The counts of the specification are over the fields of all rows.
\<close>

definition override_fields :: "row list \<Rightarrow> nat" where
  "override_fields df =
     sum_list (map (\<lambda>row. length (filter (\<lambda>(col, key).
        case row col of None \<Rightarrow> False | Some v \<Rightarrow> \<not> blank v) report_columns)) df)"

definition pool_fields :: "row list \<Rightarrow> nat" where
  "pool_fields df =
     sum_list (map (\<lambda>row. length (filter (\<lambda>(col, key).
        case row col of None \<Rightarrow> False | Some v \<Rightarrow> blank v) report_columns)) df)"

text \<open>
  What the report tests instead: a row has a cell that equals a candidate of the pool
  of its column. And the two kinds of rows of the input: with a blank cell among the
  five, or with all five supplied.
\<close>

definition has_pool_text :: "pools \<Rightarrow> row \<Rightarrow> bool" where
  "has_pool_text content_pools row =
     (\<exists>(col, key) \<in> set report_columns.
        case row col of
          None \<Rightarrow> False
        | Some v \<Rightarrow> cell_in v (case content_pools key of None \<Rightarrow> [] | Some pool \<Rightarrow> pool))"

definition has_blank :: "row \<Rightarrow> bool" where
  "has_blank row =
     (\<exists>(col, key) \<in> set report_columns. case row col of None \<Rightarrow> False | Some v \<Rightarrow> blank v)"

text \<open>A cell filled from the pool of its column: the candidate the draw picks.\<close>

definition filled_from :: "pools \<Rightarrow> string \<Rightarrow> nat \<Rightarrow> cell option \<Rightarrow> bool" where
  "filled_from content_pools key r c =
     (\<exists>pool. content_pools key = Some pool \<and> pool \<noteq> [] \<and>
        c = Some (Str (pool ! (r mod length pool))))"

section \<open>Example inputs\<close>

definition example_config :: config where
  "example_config =
     \<lparr>cfg_start_date = Some ''2024-01-01'', cfg_establishment = Some ''Fatcow on James Street'',
      cfg_menu_style = Some ''buffet'',
      cfg_shifts = Some
        [''lunch'' \<mapsto> [''start_time'' \<mapsto> ''10:30'', ''end_time'' \<mapsto> ''16:00'', ''hours'' \<mapsto> ''5.5''],
         ''dinner'' \<mapsto> [''start_time'' \<mapsto> ''16:00'', ''end_time'' \<mapsto> ''22:00'', ''hours'' \<mapsto> ''6'']]\<rparr>"

definition example_content :: content where
  "example_content =
     \<lparr>prepared = Some [''lunch'' \<mapsto> ''Set up the lunch station.'',
                       ''dinner'' \<mapsto> ''Set up the dinner station.''],
      narrative =
        [''special_requests'' \<mapsto> [''No gluten.'', ''Sauce on the side.''],
         ''food_details'' \<mapsto> [''Burgers.'', ''Risotto.'', ''Soup.''],
         ''complaints'' \<mapsto> [''None.''],
         ''debrief'' \<mapsto> [''Busy.'', ''Quiet.'', ''Steady.'', ''Short-staffed.'']],
      workflows = [''workflow_lunch'' \<mapsto> [], ''workflow_dinner'' \<mapsto> []]\<rparr>"

text \<open>The day number of 2024-01-01, for a \<open>strptime\<close> that accepts every string.\<close>

definition example_strptime :: "string \<Rightarrow> py_error + int" where
  "example_strptime date_text = Inr 738886"

text \<open>The same configuration with a third kind of shift configured.\<close>

definition three_kinds_config :: config where
  "three_kinds_config =
     example_config\<lparr>cfg_shifts := Some
        [''lunch'' \<mapsto> [''start_time'' \<mapsto> ''10:30'', ''end_time'' \<mapsto> ''16:00'', ''hours'' \<mapsto> ''5.5''],
         ''dinner'' \<mapsto> [''start_time'' \<mapsto> ''16:00'', ''end_time'' \<mapsto> ''22:00'', ''hours'' \<mapsto> ''6''],
         ''supper'' \<mapsto> [''start_time'' \<mapsto> ''22:00'', ''end_time'' \<mapsto> ''23:30'', ''hours'' \<mapsto> ''1.5'']]\<rparr>"

text \<open>The built-in pools of \<open>CSVProcessor\<close>, shortened, and a row with every cell supplied.\<close>

definition example_pools :: pools where
  "example_pools =
     [''food_details'' \<mapsto> [''Burgers.'', ''Risotto.''],
      ''special_requests'' \<mapsto> [''No gluten.''],
      ''problems'' \<mapsto> [''Oven fault.''],
      ''solutions'' \<mapsto> [''Fixed it.''],
      ''learnings'' \<mapsto> [''Teamwork.'']]"

definition example_columns :: "string list" where
  "example_columns =
     [''shift_number'', ''date'', ''shift_type'', ''start_time'', ''end_time'', ''food_details'',
      ''special_requests'', ''complaints_problems'', ''solutions_implemented'',
      ''debrief_learnings'']"

definition example_row :: row where
  "example_row =
     [''shift_type'' \<mapsto> Str ''lunch'',
      ''food_details'' \<mapsto> Str ''Burgers.'',
      ''special_requests'' \<mapsto> Str ''Table 4: no salt.'',
      ''complaints_problems'' \<mapsto> Str ''A late delivery.'',
      ''solutions_implemented'' \<mapsto> Str ''Changed the menu.'',
      ''debrief_learnings'' \<mapsto> Str ''Order earlier.'']"

section \<open>Invariants\<close>

text \<open>Every category of the selector has its history in the dictionary.\<close>

definition histories_present :: "used_content \<Rightarrow> bool" where
  "histories_present used =
     (used ''special_requests'' \<noteq> None \<and> used ''food_details'' \<noteq> None \<and>
      used ''complaints'' \<noteq> None \<and> used ''debrief'' \<noteq> None)"

text \<open>
  The invariant of a day history before the choice of day \<open>d\<close>: every recorded day is
  earlier, and no two recipes were chosen on the same day.
\<close>

definition day_inv :: "day_history \<Rightarrow> int \<Rightarrow> bool" where
  "day_inv h d = ((\<forall>v x. h v = Some x \<longrightarrow> x < d) \<and>
                  (\<forall>v w x. h v = Some x \<and> h w = Some x \<longrightarrow> v = w))"


section \<open>Properties\<close>

subsection \<open>Exceptions and state\<close>

lemma and_then_Inr_iff:
  "and_then m f = Inr y \<longleftrightarrow> (\<exists>x. m = Inr x \<and> f x = Inr y)"
  by (cases m) (simp_all add: and_then_def)

lemma getitem_Inr_iff: "getitem d k = Inr v \<longleftrightarrow> d k = Some v"
  by (simp add: getitem_def split: option.splits)

lemma getkey_Inr_iff: "getkey entry k = Inr v \<longleftrightarrow> entry = Some v"
  by (simp add: getkey_def split: option.splits)

lemma propagate_Inr_iff: "propagate p = Inr (x, s) \<longleftrightarrow> p = (Inr x, s)"
  by (cases p rule: propagate.cases) auto


subsection \<open>The variety selector\<close>

lemma choice_nonempty:
  "seq \<noteq> [] \<Longrightarrow> choice seq r = Inr (seq ! (r mod length seq))"
  by (simp add: choice_def)

lemma choice_in_set:
  "choice seq r = Inr x \<Longrightarrow> x \<in> set seq"
  by (auto simp: choice_def split: if_splits)

lemma spec_allowed_nonempty:
  "pool \<noteq> [] \<Longrightarrow> spec_allowed pool recent \<noteq> []"
  by (simp add: spec_allowed_def Let_def)

text \<open>
  C1. Called for a category with a non-empty pool and a usage history, the selector
  follows the steps of the specification: the recent values are the history, cleared
  when it has at least as many entries as the pool; the allowed candidates are the pool
  minus the recent values, or the full pool when that is empty; the draw picks one
  allowed candidate (position \<open>r mod n\<close> of the \<open>n\<close> allowed ones, so every allowed
  candidate is returned for some draw); the returned value is that candidate, and the
  history afterwards is the recent values with the candidate appended and the oldest
  entry dropped when there are more than 3.
\<close>

theorem get_varied_content_steps:
  assumes "content content_type = Some pool" and "pool \<noteq> []"
    and "used_content content_type = Some history"
  shows "(let recent = spec_recent pool history;
              allowed = spec_allowed pool recent;
              chosen = allowed ! (r mod length allowed)
          in chosen \<in> set allowed \<and>
             get_varied_content content content_type used_content r =
               (Inr chosen, used_content(content_type \<mapsto> spec_append 3 recent chosen)))
         \<and> (\<forall>k < length (spec_allowed pool (spec_recent pool history)).
               fst (get_varied_content content content_type used_content k) =
                 Inr (spec_allowed pool (spec_recent pool history) ! k))"
proof -
  let ?recent = "spec_recent pool history"
  let ?allowed = "spec_allowed pool ?recent"
  have ne: "?allowed \<noteq> []"
    using assms(2) by (rule spec_allowed_nonempty)
  have step: "get_varied_content content content_type used_content d =
      (Inr (?allowed ! (d mod length ?allowed)),
       used_content(content_type \<mapsto> spec_append 3 ?recent (?allowed ! (d mod length ?allowed))))"
    for d
    using assms
    by (simp add: get_varied_content_def spec_recent_def spec_allowed_def spec_append_def
        choice_def Let_def)
  have mem: "?allowed ! (r mod length ?allowed) \<in> set ?allowed"
    using ne by simp
  have "fst (get_varied_content content content_type used_content k) = Inr (?allowed ! k)"
    if "k < length ?allowed" for k
    using that by (simp add: step)
  with step [of r] mem show ?thesis
    by (simp add: Let_def)
qed

theorem get_varied_content_steps_witness:
  "get_varied_content [''debrief'' \<mapsto> [''a'', ''b'', ''c'', ''d'']] ''debrief''
     [''debrief'' \<mapsto> [''a'', ''b'', ''c'']] 5
   = (Inr ''d'', [''debrief'' \<mapsto> [''b'', ''c'', ''d'']])
   \<and> get_varied_content [''debrief'' \<mapsto> [''a'', ''b'']] ''debrief''
     [''debrief'' \<mapsto> [''a'', ''b'']] 1
   = (Inr ''b'', [''debrief'' \<mapsto> [''b'']])"
  using get_varied_content_steps
    [of "[''debrief'' \<mapsto> [''a'', ''b'', ''c'', ''d'']]" "''debrief''" "[''a'', ''b'', ''c'', ''d'']"
      "[''debrief'' \<mapsto> [''a'', ''b'', ''c'']]" "[''a'', ''b'', ''c'']" 5]
    get_varied_content_steps
    [of "[''debrief'' \<mapsto> [''a'', ''b'']]" "''debrief''" "[''a'', ''b'']"
      "[''debrief'' \<mapsto> [''a'', ''b'']]" "[''a'', ''b'']" 1]
  by (simp add: spec_recent_def spec_allowed_def spec_append_def Let_def)

lemma get_varied_content_bounded:
  assumes "\<forall>c h. used_content c = Some h \<longrightarrow> length h \<le> 3"
    and "get_varied_content content content_type used_content r = (x, used1)"
    and "used1 c = Some h"
  shows "length h \<le> 3"
  using assms
  by (auto simp: get_varied_content_def Let_def
      split: option.splits sum.splits if_splits)

lemma run_calls_bounded:
  "\<forall>c h. used_content c = Some h \<longrightarrow> length h \<le> 3 \<Longrightarrow>
   run_calls content used_content calls = (xs, used2) \<Longrightarrow>
   used2 c = Some h \<Longrightarrow> length h \<le> 3"
proof (induction calls arbitrary: used_content xs used2)
  case Nil
  then show ?case by simp
next
  case (Cons call calls)
  obtain content_type r where call: "call = (content_type, r)"
    by (cases call)
  obtain x used1 where s: "get_varied_content content content_type used_content r = (x, used1)"
    by (cases "get_varied_content content content_type used_content r")
  obtain ys used3 where t: "run_calls content used1 calls = (ys, used3)"
    by (cases "run_calls content used1 calls")
  have b1: "\<forall>c h. used1 c = Some h \<longrightarrow> length h \<le> 3"
    using get_varied_content_bounded [OF Cons.prems(1) s] by blast
  have "used3 = used2"
    using Cons.prems(2) by (simp add: call s t)
  with Cons.IH [OF b1 t] Cons.prems(3) show ?case
    by simp
qed

text \<open>
  C8. The usage history of every category holds at most 3 values after any selector
  call: the histories \<open>generate_shifts\<close> starts from are empty, and from histories of
  at most 3 values every sequence of calls, on any categories, with any pools (an
  empty pool included, where the call raises) and any draws, leaves every history
  with at most 3 values.
\<close>

theorem history_never_exceeds_bound:
  "(\<forall>c h. used_content_init c = Some h \<longrightarrow> length h = 0) \<and>
   ((\<forall>c h. used_content c = Some h \<longrightarrow> length h \<le> 3) \<longrightarrow>
    (\<forall>c h. snd (run_calls content used_content calls) c = Some h \<longrightarrow> length h \<le> 3))"
proof -
  have "\<forall>c h. used_content_init c = Some h \<longrightarrow> length h = 0"
    by (auto simp: used_content_init_def split: if_splits)
  moreover have "length h \<le> 3"
    if "\<forall>c h. used_content c = Some h \<longrightarrow> length h \<le> 3"
      and "snd (run_calls content used_content calls) c = Some h" for c h
    using run_calls_bounded [OF that(1), of content calls
        "fst (run_calls content used_content calls)" "snd (run_calls content used_content calls)" c h]
      that(2)
    by simp
  ultimately show ?thesis
    by blast
qed

theorem history_never_exceeds_bound_witness:
  "used_content_init ''debrief'' = Some [] \<and>
   snd (run_calls [''debrief'' \<mapsto> [''a'', ''b'', ''c'', ''d'', ''e'']] used_content_init
     [(''debrief'', 0), (''debrief'', 0), (''debrief'', 0), (''debrief'', 0), (''debrief'', 0)])
     ''debrief'' = Some [''c'', ''d'', ''a''] \<and>
   length [''c'', ''d'', ''a''] \<le> 3"
  using history_never_exceeds_bound
    [of used_content_init "[''debrief'' \<mapsto> [''a'', ''b'', ''c'', ''d'', ''e'']]"
      "[(''debrief'', 0), (''debrief'', 0), (''debrief'', 0), (''debrief'', 0), (''debrief'', 0)]"]
  by (simp add: used_content_init_def get_varied_content_def choice_def Let_def)

subsection \<open>Blocks of selections\<close>

text \<open>
  With a pool of at most 3 candidates the history is cleared exactly when it holds as
  many values as the pool: the selections come in blocks of that length, and within a
  block a value is repeated only once every candidate has been used.
\<close>

lemma choice_Inl_iff: "choice seq r = Inl e \<longleftrightarrow> seq = [] \<and> e = IndexError"
  by (auto simp: choice_def)

lemma choice_nonempty_ex: "seq \<noteq> [] \<Longrightarrow> \<exists>x. choice seq r = Inr x \<and> x \<in> set seq"
  by (simp add: choice_def)

lemma run_calls_append:
  "run_calls content used (xs @ ys) =
     (fst (run_calls content used xs) @ fst (run_calls content (snd (run_calls content used xs)) ys),
      snd (run_calls content (snd (run_calls content used xs)) ys))"
  by (induction xs arbitrary: used) (auto simp: case_prod_beta Let_def)

lemma length_run_calls [simp]:
  "length (fst (run_calls content used calls)) = length calls"
  by (induction calls arbitrary: used) (auto simp: case_prod_beta Let_def)

lemma step_within_block:
  assumes "content ct = Some pool" and "used ct = Some h"
    and "length h < length pool" and "length pool \<le> 3"
  shows "\<exists>s. get_varied_content content ct used r = (Inr s, used(ct \<mapsto> h @ [s]))
           \<and> s \<in> set pool \<and> (\<not> set pool \<subseteq> set h \<longrightarrow> s \<notin> set h)"
proof (cases "filter (\<lambda>item. item \<notin> set h) pool = []")
  case True
  have "pool \<noteq> []" using assms(3) by auto
  then obtain s where s: "choice pool r = Inr s" "s \<in> set pool"
    using choice_nonempty_ex by blast
  have "set pool \<subseteq> set h"
    using True by (auto simp: filter_empty_conv)
  with assms s True show ?thesis
    by (auto simp: get_varied_content_def Let_def)
next
  case False
  then obtain s where s: "choice (filter (\<lambda>item. item \<notin> set h) pool) r = Inr s"
      "s \<in> set (filter (\<lambda>item. item \<notin> set h) pool)"
    using choice_nonempty_ex by blast
  with assms False show ?thesis
    by (auto simp: get_varied_content_def Let_def)
qed

lemma block_invariant:
  assumes "content ct = Some pool" and "length pool \<le> 3"
  shows "used ct = Some h \<Longrightarrow> length h + length rs \<le> length pool \<Longrightarrow> set h \<subseteq> set pool \<Longrightarrow>
     set h = set pool \<or> distinct h \<Longrightarrow>
     \<exists>ss. fst (run_calls content used (map (Pair ct) rs)) = map Inr ss
        \<and> snd (run_calls content used (map (Pair ct) rs)) ct = Some (h @ ss)
        \<and> length ss = length rs
        \<and> set (h @ ss) \<subseteq> set pool \<and> (set (h @ ss) = set pool \<or> distinct (h @ ss))"
proof (induction rs arbitrary: used h)
  case Nil
  then show ?case by simp
next
  case (Cons r rs)
  have lt: "length h < length pool" using Cons.prems(2) by simp
  obtain s where s: "get_varied_content content ct used r = (Inr s, used(ct \<mapsto> h @ [s]))"
      "s \<in> set pool" "\<not> set pool \<subseteq> set h \<longrightarrow> s \<notin> set h"
    using step_within_block [of content ct pool used h r] assms Cons.prems(1) lt by blast
  let ?u = "used(ct \<mapsto> h @ [s])"
  have a: "?u ct = Some (h @ [s])" by simp
  have b: "length (h @ [s]) + length rs \<le> length pool" using Cons.prems(2) by simp
  have c: "set (h @ [s]) \<subseteq> set pool" using Cons.prems(3) s(2) by simp
  have d: "set (h @ [s]) = set pool \<or> distinct (h @ [s])"
  proof (cases "set pool \<subseteq> set h")
    case True
    then show ?thesis using Cons.prems(3) s(2) by auto
  next
    case False
    then have "s \<notin> set h" using s(3) by simp
    moreover have "distinct h" using False Cons.prems(3,4) by auto
    ultimately show ?thesis by simp
  qed
  obtain ss where ss: "fst (run_calls content ?u (map (Pair ct) rs)) = map Inr ss"
      "snd (run_calls content ?u (map (Pair ct) rs)) ct = Some ((h @ [s]) @ ss)"
      "length ss = length rs"
      "set ((h @ [s]) @ ss) \<subseteq> set pool"
      "set ((h @ [s]) @ ss) = set pool \<or> distinct ((h @ [s]) @ ss)"
    using Cons.IH [of ?u "h @ [s]"] a b c d by blast
  show ?case
    apply (rule exI [of _ "s # ss"])
    using ss s(1) by (simp add: case_prod_beta)
qed

lemma full_block:
  assumes "content ct = Some pool" and "length pool \<le> 3" and "used ct = Some []"
    and "length rs = length pool"
  shows "\<exists>ss. fst (run_calls content used (map (Pair ct) rs)) = map Inr ss
        \<and> snd (run_calls content used (map (Pair ct) rs)) ct = Some ss
        \<and> length ss = length pool \<and> set ss = set pool"
proof -
  obtain ss where ss: "fst (run_calls content used (map (Pair ct) rs)) = map Inr ss"
      "snd (run_calls content used (map (Pair ct) rs)) ct = Some ([] @ ss)"
      "length ss = length rs"
      "set ([] @ ss) \<subseteq> set pool" "set ([] @ ss) = set pool \<or> distinct ([] @ ss)"
    using block_invariant [of content ct pool used "[]" rs] assms by auto
  have "set ss = set pool"
  proof (cases "distinct ss")
    case True
    then have "card (set ss) = length pool"
      using ss(3) assms(4) by (simp add: distinct_card)
    moreover have "card (set pool) \<le> length pool" by (rule card_length)
    ultimately have "card (set pool) \<le> card (set ss)" by simp
    with ss(4) show ?thesis
      by (simp add: card_seteq)
  next
    case False
    then show ?thesis using ss(5) by simp
  qed
  with ss assms(4) show ?thesis by auto
qed

lemma reset_same:
  assumes "content ct = Some pool" and "used ct = Some h" and "length pool \<le> length h"
  shows "get_varied_content content ct used r = get_varied_content content ct (used(ct \<mapsto> [])) r"
  using assms by (auto simp: get_varied_content_def Let_def split: sum.splits)

lemma run_after_full_history:
  assumes "content ct = Some pool" and "used ct = Some h" and "length pool \<le> length h"
  shows "fst (run_calls content used (map (Pair ct) rs)) =
         fst (run_calls content (used(ct \<mapsto> [])) (map (Pair ct) rs))"
proof (cases rs)
  case Nil
  then show ?thesis by simp
next
  case (Cons r rs')
  then show ?thesis
    using reset_same [of content ct pool used h] assms by (simp add: case_prod_beta)
qed

lemma aligned_block:
  assumes "content ct = Some pool" and "length pool \<le> 3"
  shows "used ct = Some [] \<Longrightarrow> (m + 1) * length pool \<le> length rs \<Longrightarrow>
     set (take (length pool) (drop (m * length pool)
        (fst (run_calls content used (map (Pair ct) rs))))) = Inr ` set pool"
proof (induction m arbitrary: used rs)
  case 0
  let ?K = "length pool"
  have rs: "rs = take ?K rs @ drop ?K rs" by simp
  have len: "length (take ?K rs) = ?K" using "0.prems"(2) by simp
  obtain ss where ss: "fst (run_calls content used (map (Pair ct) (take ?K rs))) = map Inr ss"
      "length ss = ?K" "set ss = set pool"
    using full_block [of content ct pool used "take ?K rs"] assms "0.prems"(1) len by blast
  have "fst (run_calls content used (map (Pair ct) rs)) =
        fst (run_calls content used (map (Pair ct) (take ?K rs) @ map (Pair ct) (drop ?K rs)))"
    by (metis rs map_append)
  then have "take ?K (fst (run_calls content used (map (Pair ct) rs))) = map Inr ss"
    using ss(1,2) by (simp add: run_calls_append)
  then show ?case using ss(3) by simp
next
  case (Suc m)
  let ?K = "length pool"
  let ?u1 = "snd (run_calls content used (map (Pair ct) (take ?K rs)))"
  have len: "length (take ?K rs) = ?K" using Suc.prems(2) by simp
  obtain ss where ss: "fst (run_calls content used (map (Pair ct) (take ?K rs))) = map Inr ss"
      "?u1 ct = Some ss" "length ss = ?K"
    using full_block [of content ct pool used "take ?K rs"] assms Suc.prems(1) len by blast
  have split: "fst (run_calls content used (map (Pair ct) rs)) =
        fst (run_calls content used (map (Pair ct) (take ?K rs) @ map (Pair ct) (drop ?K rs)))"
    by (metis append_take_drop_id map_append)
  have "drop ?K (fst (run_calls content used (map (Pair ct) rs))) =
        fst (run_calls content ?u1 (map (Pair ct) (drop ?K rs)))"
    unfolding split using ss(1,3) by (simp add: run_calls_append)
  also have "\<dots> = fst (run_calls content (?u1(ct \<mapsto> [])) (map (Pair ct) (drop ?K rs)))"
    using run_after_full_history [of content ct pool ?u1 ss "drop ?K rs"] assms(1) ss(2,3) by simp
  finally have d: "drop ?K (fst (run_calls content used (map (Pair ct) rs))) =
        fst (run_calls content (?u1(ct \<mapsto> [])) (map (Pair ct) (drop ?K rs)))" .
  have e: "(?u1(ct \<mapsto> [])) ct = Some []" by simp
  have f: "(m + 1) * ?K \<le> length (drop ?K rs)" using Suc.prems(2) by simp
  have g: "set (take ?K (drop (m * ?K)
        (fst (run_calls content (?u1(ct \<mapsto> [])) (map (Pair ct) (drop ?K rs)))))) = Inr ` set pool"
    by (rule Suc.IH [of "?u1(ct \<mapsto> [])" "drop ?K rs", OF e f])
  have h: "drop (Suc m * ?K) (fst (run_calls content used (map (Pair ct) rs))) =
        drop (m * ?K) (drop ?K (fst (run_calls content used (map (Pair ct) rs))))"
    by (simp add: add.commute)
  show ?case
    unfolding h d by (rule g)
qed

text \<open>
  C6 (amended). For every pool of \<open>K \<le> 3\<close> candidates and every run of the selector on
  its category from an empty history, the selections \<open>m K + 1, \<dots>, (m + 1) K\<close> (a
  window aligned with the clearing of the history) contain every candidate, for every
  \<open>m\<close> and all draws.
\<close>

theorem aligned_window_covers_pool:
  assumes "content ct = Some pool" and "length pool \<le> 3" and "used ct = Some []"
    and "(m + 1) * length pool \<le> length rs"
  shows "set (take (length pool) (drop (m * length pool)
           (fst (run_calls content used (map (Pair ct) rs))))) = Inr ` set pool"
  using aligned_block [of content ct pool used m rs] assms by simp

theorem aligned_window_covers_pool_witness:
  "set (take (length [''a'', ''b'']) (drop (1 * length [''a'', ''b''])
     (fst (run_calls [''debrief'' \<mapsto> [''a'', ''b'']] used_content_init
        (map (Pair ''debrief'') [0, 0, 1, 0]))))) = Inr ` set [''a'', ''b'']"
  using aligned_window_covers_pool
    [of "[''debrief'' \<mapsto> [''a'', ''b'']]" "''debrief''" "[''a'', ''b'']" used_content_init 1
      "[0, 0, 1, 0]"]
  by (simp add: used_content_init_def)

text \<open>
  The claim as stated fails for a window that is not aligned: with the pool \<open>a, b\<close>
  the selections can be \<open>a, b, b\<close> (the history is cleared before the third), and
  the window of the second and third selection does not contain \<open>a\<close>.
\<close>

theorem window_misses_candidate:
  "fst (run_calls [''debrief'' \<mapsto> [''a'', ''b'']] used_content_init
     (map (Pair ''debrief'') [0, 0, 1])) = [Inr ''a'', Inr ''b'', Inr ''b''] \<and>
   Inr ''a'' \<notin> set (take 2 (drop 1 (fst (run_calls [''debrief'' \<mapsto> [''a'', ''b'']]
     used_content_init (map (Pair ''debrief'') [0, 0, 1])))))"
  by (simp add: used_content_init_def get_varied_content_def choice_def Let_def)

subsection \<open>No immediate repeat with enough candidates\<close>

lemma step_fresh:
  assumes "content ct = Some pool" and "4 \<le> card (set pool)"
    and "used ct = Some h" and "length h \<le> 3"
  shows "\<exists>s h'. get_varied_content content ct used r = (Inr s, used(ct \<mapsto> h'))
           \<and> s \<in> set pool \<and> s \<notin> set h \<and> s \<in> set h' \<and> length h' \<le> 3"
proof -
  have "card (set pool) \<le> length pool" by (rule card_length)
  then have long: "\<not> length pool \<le> length h" using assms(2,4) by simp
  have "card (set h) \<le> length h" by (rule card_length)
  then have "card (set h) < card (set pool)" using assms(2,4) by simp
  then have "\<not> set pool \<subseteq> set h"
    by (meson List.finite_set card_mono not_less)
  then have ne: "filter (\<lambda>item. item \<notin> set h) pool \<noteq> []"
    by (auto simp: filter_empty_conv)
  then obtain s where s: "choice (filter (\<lambda>item. item \<notin> set h) pool) r = Inr s"
      "s \<in> set (filter (\<lambda>item. item \<notin> set h) pool)"
    using choice_nonempty_ex by blast
  show ?thesis
    apply (rule exI [of _ s])
    apply (rule exI [of _ "if 3 < length (h @ [s]) then tl (h @ [s]) else h @ [s]"])
    using assms(1,3,4) long ne s
    by (cases h) (auto simp: get_varied_content_def Let_def)
qed

lemma run_no_repeat:
  assumes "content ct = Some pool" and "4 \<le> card (set pool)"
  shows "used ct = Some h \<Longrightarrow> length h \<le> 3 \<Longrightarrow>
     \<exists>ss. fst (run_calls content used (map (Pair ct) rs)) = map Inr ss
        \<and> set ss \<subseteq> set pool \<and> distinct_adj ss \<and> (ss \<noteq> [] \<longrightarrow> hd ss \<notin> set h)"
proof (induction rs arbitrary: used h)
  case Nil
  then show ?case by simp
next
  case (Cons r rs)
  obtain s h' where s: "get_varied_content content ct used r = (Inr s, used(ct \<mapsto> h'))"
      "s \<in> set pool" "s \<notin> set h" "s \<in> set h'" "length h' \<le> 3"
    using step_fresh [of content ct pool used h r] assms Cons.prems by blast
  let ?u = "used(ct \<mapsto> h')"
  have a: "?u ct = Some h'" by simp
  obtain ss where ss: "fst (run_calls content ?u (map (Pair ct) rs)) = map Inr ss"
      "set ss \<subseteq> set pool" "distinct_adj ss" "ss \<noteq> [] \<longrightarrow> hd ss \<notin> set h'"
    using Cons.IH [of ?u h'] a s(5) by blast
  have "distinct_adj (s # ss)"
    using ss(3,4) s(4) by (cases ss) auto
  then show ?case
    apply -
    apply (rule exI [of _ "s # ss"])
    using ss s by (simp add: case_prod_beta)
qed

lemma distinct_adj_map_Inr: "distinct_adj (map Inr ss) = distinct_adj ss"
  by (simp add: distinct_adj_map_iff)

lemma count_window_no_repeat:
  assumes "content ct = Some pool" and "4 \<le> card (set pool)"
    and "used ct = Some h" and "length h \<le> 3"
  shows "distinct_adj (fst (run_calls content used (map (Pair ct) rs)))
     \<and> set (fst (run_calls content used (map (Pair ct) rs))) \<subseteq> Inr ` set pool"
proof -
  obtain ss where ss: "fst (run_calls content used (map (Pair ct) rs)) = map Inr ss"
      "set ss \<subseteq> set pool" "distinct_adj ss"
    using run_no_repeat [of content ct pool used h rs] assms by blast
  then show ?thesis
    by (auto simp: distinct_adj_map_Inr)
qed

subsection \<open>The day histories of the recipe rotation\<close>

text \<open>
  Days are visited in increasing order, one choice a day: every recorded day is before
  the current one and no two recipes share a day, so fewer than 8 recipes are blocked.
\<close>

lemma blocked_card:
  assumes "day_inv h d"
  shows "finite {v. \<exists>x. h v = Some x \<and> d - x < 8} \<and> card {v. \<exists>x. h v = Some x \<and> d - x < 8} \<le> 7"
proof -
  let ?B = "{v. \<exists>x. h v = Some x \<and> d - x < 8}"
  let ?f = "\<lambda>v. the (h v)"
  have inj: "inj_on ?f ?B"
    using assms by (auto simp: inj_on_def day_inv_def)
  have sub: "?f ` ?B \<subseteq> {d - 7..d - 1}"
    using assms by (auto simp: day_inv_def)
  have fin: "finite ?B"
    using inj sub by (meson finite_atLeastAtMost_int finite_imageD finite_subset)
  have "card ?B = card (?f ` ?B)"
    using inj by (simp add: card_image)
  also have "\<dots> \<le> card {d - 7..d - 1}"
    using sub by (intro card_mono) auto
  also have "\<dots> = 7" by simp
  finally show ?thesis using fin by simp
qed

lemma choose_unique_step:
  assumes "day_inv h d" and "8 \<le> card (set items)"
  shows "\<exists>c. choose_unique items h d 8 r = (Inr c, h(c \<mapsto> d)) \<and> c \<in> set items
          \<and> (\<forall>x. h c = Some x \<longrightarrow> 8 \<le> d - x) \<and> day_inv (h(c \<mapsto> d)) (d + 1)"
proof -
  let ?B = "{v. \<exists>x. h v = Some x \<and> d - x < 8}"
  let ?av = "filter (\<lambda>x. case h x of None \<Rightarrow> True | Some y \<Rightarrow> 8 \<le> d - y) items"
  have "card ?B < card (set items)"
    using blocked_card [OF assms(1)] assms(2) by simp
  then have "\<not> set items \<subseteq> ?B"
    using blocked_card [OF assms(1)] by (meson card_mono not_less)
  then obtain v where v: "v \<in> set items" "v \<notin> ?B" by blast
  then have "v \<in> set ?av"
    by (auto split: option.splits)
  then have ne: "?av \<noteq> []" by (metis empty_iff empty_set)
  then obtain c where c: "choice ?av r = Inr c" "c \<in> set ?av"
    using choice_nonempty_ex by blast
  have c1: "c \<in> set items" and c2: "\<forall>x. h c = Some x \<longrightarrow> 8 \<le> d - x"
    using c(2) by (auto split: option.splits)
  have "day_inv (h(c \<mapsto> d)) (d + 1)"
    using assms(1) by (fastforce simp: day_inv_def)
  with c c1 c2 ne show ?thesis
    by (auto simp: choose_unique_def Let_def)
qed


lemma day_body_Inr:
  assumes "day_body recipes dr day hs = Inr (d, hs1)"
  shows "\<exists>ps ss acs.
      recipes ''proteins'' = Some ps \<and> recipes ''sauces'' = Some ss \<and>
      recipes ''accompaniments'' = Some acs \<and>
      choose_unique ps (h_proteins hs) day 8 (dr (nat day) ''proteins'') =
        (Inr (protein d), h_proteins hs1) \<and>
      choose_unique ss (h_sauces hs) day 8 (dr (nat day) ''sauces'') =
        (Inr (sauce d), h_sauces hs1) \<and>
      choose_unique acs (h_accompaniments hs) day 8 (dr (nat day) ''accompaniments'') =
        (Inr (accompaniment d), h_accompaniments hs1) \<and>
      shift d = pattern ! nat (((day - 1) div rotation) mod int (length pattern))"
  using assms
  by (auto simp: day_body_def Let_def and_then_Inr_iff getitem_Inr_iff propagate_Inr_iff)

lemma days_loop_Cons_Inr:
  assumes "days_loop recipes dr (day # rest) hs = Inr data"
  shows "\<exists>d hs1 ds. day_body recipes dr day hs = Inr (d, hs1) \<and>
      days_loop recipes dr rest hs1 = Inr ds \<and> data = d # ds"
  using assms by (auto simp: and_then_Inr_iff)

lemma days_loop_column:
  fixes hist :: "histories \<Rightarrow> day_history" and col :: "day_data \<Rightarrow> string"
  assumes body: "\<And>day hs d hs1. day_body recipes dr day hs = Inr (d, hs1) \<Longrightarrow>
      choose_unique items (hist hs) day 8 (dr (nat day) key) = (Inr (col d), hist hs1)"
    and many: "8 \<le> card (set items)"
  shows "day_inv (hist hs) d0 \<Longrightarrow> days_loop recipes dr [d0..days] hs = Inr data \<Longrightarrow>
     distinct_adj (map col data) \<and>
     (data \<noteq> [] \<longrightarrow> (\<forall>x. hist hs (col (hd data)) = Some x \<longrightarrow> 8 \<le> d0 - x))"
proof (induction d0 days arbitrary: hs data rule: upto.induct)
  case (1 i j)
  show ?case
  proof (cases "i \<le> j")
    case False
    then have "data = []" using "1.prems"(2) by simp
    then show ?thesis by simp
  next
    case True
    then have "[i..j] = i # [i + 1..j]" by (simp add: upto_rec1)
    then obtain d hs1 ds where d: "day_body recipes dr i hs = Inr (d, hs1)"
        "days_loop recipes dr [i + 1..j] hs1 = Inr ds" "data = d # ds"
      using days_loop_Cons_Inr [of recipes dr i "[i + 1..j]" hs data] "1.prems"(2) by auto
    have cu: "choose_unique items (hist hs) i 8 (dr (nat i) key) = (Inr (col d), hist hs1)"
      using body [OF d(1)] .
    obtain c where c: "choose_unique items (hist hs) i 8 (dr (nat i) key) = (Inr c, (hist hs)(c \<mapsto> i))"
        "\<forall>x. hist hs c = Some x \<longrightarrow> 8 \<le> i - x" "day_inv ((hist hs)(c \<mapsto> i)) (i + 1)"
      using choose_unique_step [OF "1.prems"(1) many, of "dr (nat i) key"] by blast
    have eq: "col d = c" "hist hs1 = (hist hs)(c \<mapsto> i)"
      using cu c(1) by auto
    have inv1: "day_inv (hist hs1) (i + 1)"
      using c(3) eq(2) by simp
    have ih: "distinct_adj (map col ds) \<and>
        (ds \<noteq> [] \<longrightarrow> (\<forall>x. hist hs1 (col (hd ds)) = Some x \<longrightarrow> 8 \<le> i + 1 - x))"
      using "1.IH" [OF True inv1 d(2)] .
    have "col (hd ds) \<noteq> c" if "ds \<noteq> []"
    proof
      assume "col (hd ds) = c"
      then have "hist hs1 (col (hd ds)) = Some i" using eq(2) by simp
      then have "8 \<le> i + 1 - i" using ih that by blast
      then show False by simp
    qed
    then have "distinct_adj (map col (d # ds))"
      using ih eq(1) by (cases ds) auto
    then show ?thesis
      using d(3) c(2) eq(1) by simp
  qed
qed

lemma day_inv_empty: "day_inv Map.empty d"
  by (simp add: day_inv_def)

lemma gap_window_no_repeat:
  assumes "generate_shift_data recipes days dr = Inr data"
  shows "(\<forall>ps. recipes ''proteins'' = Some ps \<and> 8 \<le> card (set ps) \<longrightarrow>
            distinct_adj (map protein data)) \<and>
         (\<forall>ss. recipes ''sauces'' = Some ss \<and> 8 \<le> card (set ss) \<longrightarrow>
            distinct_adj (map sauce data)) \<and>
         (\<forall>acs. recipes ''accompaniments'' = Some acs \<and> 8 \<le> card (set acs) \<longrightarrow>
            distinct_adj (map accompaniment data))"
proof (intro conjI allI impI)
  let ?hs0 = "\<lparr>h_proteins = Map.empty, h_sauces = Map.empty, h_accompaniments = Map.empty\<rparr>"
  have run: "days_loop recipes dr [1..days] ?hs0 = Inr data"
    using assms by (simp add: generate_shift_data_def)
  {
    fix ps assume ps: "recipes ''proteins'' = Some ps \<and> 8 \<le> card (set ps)"
    have "\<And>day hs d hs1. day_body recipes dr day hs = Inr (d, hs1) \<Longrightarrow>
        choose_unique ps (h_proteins hs) day 8 (dr (nat day) ''proteins'') =
          (Inr (protein d), h_proteins hs1)"
      using ps by (auto dest!: day_body_Inr)
    from days_loop_column [of recipes dr ps h_proteins "''proteins''" protein ?hs0 1 days data,
        OF this] ps run
    show "distinct_adj (map protein data)"
      by (simp add: day_inv_empty)
  next
    fix ss assume ss: "recipes ''sauces'' = Some ss \<and> 8 \<le> card (set ss)"
    have "\<And>day hs d hs1. day_body recipes dr day hs = Inr (d, hs1) \<Longrightarrow>
        choose_unique ss (h_sauces hs) day 8 (dr (nat day) ''sauces'') =
          (Inr (sauce d), h_sauces hs1)"
      using ss by (auto dest!: day_body_Inr)
    from days_loop_column [of recipes dr ss h_sauces "''sauces''" sauce ?hs0 1 days data,
        OF this] ss run
    show "distinct_adj (map sauce data)"
      by (simp add: day_inv_empty)
  next
    fix acs assume acs: "recipes ''accompaniments'' = Some acs \<and> 8 \<le> card (set acs)"
    have "\<And>day hs d hs1. day_body recipes dr day hs = Inr (d, hs1) \<Longrightarrow>
        choose_unique acs (h_accompaniments hs) day 8 (dr (nat day) ''accompaniments'') =
          (Inr (accompaniment d), h_accompaniments hs1)"
      using acs by (auto dest!: day_body_Inr)
    from days_loop_column [of recipes dr acs h_accompaniments "''accompaniments''"
        accompaniment ?hs0 1 days data, OF this] acs run
    show "distinct_adj (map accompaniment data)"
      by (simp add: day_inv_empty)
  }
qed

text \<open>
  C4 (amended). With at least 4 distinct candidates in the pool of a category (more than
  the history holds) and a history of at most 3 values, no two consecutive selector
  calls for the category return the same value, and none raises; in the recipe
  rotation, with at least 8 distinct recipes in a category (as many as the gap), no two
  consecutive days get the same recipe of that category.
\<close>

theorem no_immediate_repeat:
  "(content ct = Some pool \<and> 4 \<le> card (set pool) \<and> used ct = Some h \<and> length h \<le> 3 \<longrightarrow>
      distinct_adj (fst (run_calls content used (map (Pair ct) rs))) \<and>
      set (fst (run_calls content used (map (Pair ct) rs))) \<subseteq> Inr ` set pool) \<and>
   (generate_shift_data recipes days dr = Inr data \<longrightarrow>
      (\<forall>ps. recipes ''proteins'' = Some ps \<and> 8 \<le> card (set ps) \<longrightarrow>
         distinct_adj (map protein data)) \<and>
      (\<forall>ss. recipes ''sauces'' = Some ss \<and> 8 \<le> card (set ss) \<longrightarrow>
         distinct_adj (map sauce data)) \<and>
      (\<forall>acs. recipes ''accompaniments'' = Some acs \<and> 8 \<le> card (set acs) \<longrightarrow>
         distinct_adj (map accompaniment data)))"
  using count_window_no_repeat [of content ct pool used h rs]
    gap_window_no_repeat [of recipes days dr data]
  by blast

lemma upto_1_3: "[1..3] = [1, 2, 3::int]"
  by (simp add: upto_rec1)

theorem no_immediate_repeat_witness:
  "distinct_adj (fst (run_calls [''debrief'' \<mapsto> [''a'', ''b'', ''c'', ''d'']] used_content_init
      (map (Pair ''debrief'') [0, 0, 0, 0, 0, 0]))) \<and>
   generate_shift_data
     [''proteins'' \<mapsto> [''p1'', ''p2'', ''p3'', ''p4'', ''p5'', ''p6'', ''p7'', ''p8''],
      ''sauces'' \<mapsto> [''s1''], ''accompaniments'' \<mapsto> [''a1'']] 3 (\<lambda>day field. 0) =
     Inr [\<lparr>shift = ''Preparation'', protein = ''p1'', sauce = ''s1'', accompaniment = ''a1'',
            obs = ''General mise en place for service.''\<rparr>,
          \<lparr>shift = ''Preparation'', protein = ''p2'', sauce = ''s1'', accompaniment = ''a1'',
            obs = ''General mise en place for service.''\<rparr>,
          \<lparr>shift = ''Preparation'', protein = ''p3'', sauce = ''s1'', accompaniment = ''a1'',
            obs = ''General mise en place for service.''\<rparr>] \<and>
   distinct_adj [''p1'', ''p2'', ''p3'']"
proof -
  have run: "generate_shift_data
     [''proteins'' \<mapsto> [''p1'', ''p2'', ''p3'', ''p4'', ''p5'', ''p6'', ''p7'', ''p8''],
      ''sauces'' \<mapsto> [''s1''], ''accompaniments'' \<mapsto> [''a1'']] 3 (\<lambda>day field. 0) =
     Inr [\<lparr>shift = ''Preparation'', protein = ''p1'', sauce = ''s1'', accompaniment = ''a1'',
            obs = ''General mise en place for service.''\<rparr>,
          \<lparr>shift = ''Preparation'', protein = ''p2'', sauce = ''s1'', accompaniment = ''a1'',
            obs = ''General mise en place for service.''\<rparr>,
          \<lparr>shift = ''Preparation'', protein = ''p3'', sauce = ''s1'', accompaniment = ''a1'',
            obs = ''General mise en place for service.''\<rparr>]"
    by (simp add: generate_shift_data_def upto_1_3 day_body_def choose_unique_def choice_def
        and_then_def getitem_def pattern_def rotation_def get_observation_def Let_def)
  show ?thesis
    using no_immediate_repeat
      [of "[''debrief'' \<mapsto> [''a'', ''b'', ''c'', ''d'']]" "''debrief''" "[''a'', ''b'', ''c'', ''d'']"
        used_content_init "[]" "[0, 0, 0, 0, 0, 0]"
        "[''proteins'' \<mapsto> [''p1'', ''p2'', ''p3'', ''p4'', ''p5'', ''p6'', ''p7'', ''p8''],
          ''sauces'' \<mapsto> [''s1''], ''accompaniments'' \<mapsto> [''a1'']]" 3 "\<lambda>day field. 0"]
      run
    by (simp add: used_content_init_def)
qed

text \<open>
  The claim as stated fails for pools of 2 candidates: the selector can return
  \<open>a, b, b\<close> (the history is cleared before the third call), and the recipe rotation
  can choose \<open>p2, p1, p1\<close> (on day 3 no recipe is 8 days old, the history is cleared).
\<close>

theorem immediate_repeat_small_pool:
  "fst (run_calls [''food_details'' \<mapsto> [''a'', ''b'']] used_content_init
     (map (Pair ''food_details'') [0, 0, 1])) = [Inr ''a'', Inr ''b'', Inr ''b''] \<and>
   map_sum id (map protein)
     (generate_shift_data
        [''proteins'' \<mapsto> [''p1'', ''p2''], ''sauces'' \<mapsto> [''s1'', ''s2''],
         ''accompaniments'' \<mapsto> [''a1'', ''a2'']] 3 (\<lambda>day field. if day = 3 then 0 else 1)) =
     Inr [''p2'', ''p1'', ''p1'']"
  by (simp add: used_content_init_def get_varied_content_def generate_shift_data_def upto_1_3
      day_body_def choose_unique_def choice_def and_then_def getitem_def pattern_def
      rotation_def get_observation_def Let_def)

subsection \<open>The schedule of the generators\<close>

lemma title_lunch: "title ''lunch'' = ''Lunch''"
  by (simp add: title_def ascii_lower_def ascii_upper_def upper_def lower_def)

lemma title_dinner: "title ''dinner'' = ''Dinner''"
  by (simp add: title_def ascii_lower_def ascii_upper_def upper_def lower_def)

lemma add_days_Inr_iff: "add_days d n = Inr x \<longleftrightarrow> d + n \<le> max_ordinal \<and> x = d + n"
  by (auto simp: add_days_def)

lemma alternation_lunch_dinner:
  "spec_alternation [''Lunch'', ''Dinner''] i = (if i mod 2 = 0 then ''Lunch'' else ''Dinner'')"
proof -
  have len: "length [''Lunch'', ''Dinner''] = 2" by simp
  have "i mod 2 = 0 \<or> i mod 2 = 1" by arith
  then show ?thesis
    unfolding spec_alternation_def len
  proof
    assume h: "i mod 2 = 0"
    show "[''Lunch'', ''Dinner''] ! (i mod 2) = (if i mod 2 = 0 then ''Lunch'' else ''Dinner'')"
      unfolding h by simp
  next
    assume h: "i mod 2 = 1"
    show "[''Lunch'', ''Dinner''] ! (i mod 2) = (if i mod 2 = 0 then ''Lunch'' else ''Dinner'')"
      unfolding h by simp
  qed
qed

lemma shift_body_slot:
  assumes "shift_body cfg cont dr start i used0 = Inr (s, used1)"
  shows "slot_of s = (i + 1, start + int (i div 2), spec_alternation [''Lunch'', ''Dinner''] i)"
  using assms
  by (auto simp: shift_body_def Let_def and_then_Inr_iff add_days_Inr_iff slot_of_def
      alternation_lunch_dinner title_lunch title_dinner split: prod.splits)

lemma shifts_loop_slots:
  "shifts_loop cfg cont dr start idxs used0 = Inr (shifts, used1) \<Longrightarrow>
   map slot_of shifts =
     map (\<lambda>i. (i + 1, start + int (i div 2), spec_alternation [''Lunch'', ''Dinner''] i)) idxs"
proof (induction idxs arbitrary: used0 shifts used1)
  case Nil
  then show ?case by simp
next
  case (Cons i rest)
  then obtain s u1 ss u2 where b: "shift_body cfg cont dr start i used0 = Inr (s, u1)"
      and l: "shifts_loop cfg cont dr start rest u1 = Inr (ss, u2)" and e: "shifts = s # ss"
    by (auto simp: and_then_Inr_iff split: prod.splits)
  show ?case
    using shift_body_slot [OF b] Cons.IH [OF l] e by simp
qed

lemma generate_shifts_slots:
  assumes "cfg_start_date cfg = Some date_text" and "strptime date_text = Inr start"
    and "generate_shifts strptime cfg cont dr = Inr shifts"
  shows "map slot_of shifts = spec_schedule start 48 2 (spec_alternation [''Lunch'', ''Dinner''])"
proof -
  obtain u where "shifts_loop cfg cont dr start [0..<48] used_content_init = Inr (shifts, u)"
    using assms
    by (auto simp: generate_shifts_def and_then_Inr_iff getkey_Inr_iff split: prod.splits)
  then show ?thesis
    using shifts_loop_slots by (simp add: spec_schedule_def)
qed

lemma days_loop_kinds:
  "days_loop recipes dr days hs = Inr data \<Longrightarrow>
   map shift data = map (\<lambda>day. pattern ! nat (((day - 1) div rotation) mod int (length pattern))) days"
proof (induction days arbitrary: hs data)
  case Nil
  then show ?case by simp
next
  case (Cons day rest)
  then obtain d hs1 ds where b: "day_body recipes dr day hs = Inr (d, hs1)"
      and l: "days_loop recipes dr rest hs1 = Inr ds" and e: "data = d # ds"
    using days_loop_Cons_Inr by blast
  show ?case
    using day_body_Inr [OF b] Cons.IH [OF l] e by auto
qed

lemma upto_as_map: "0 \<le> n \<Longrightarrow> [1..n] = map (\<lambda>i. int i + 1) [0..<nat n]"
proof (induction "nat n" arbitrary: n)
  case 0
  then show ?case by simp
next
  case (Suc k)
  then have n: "n = int k + 1" by linarith
  have "[1..n] = [1..n - 1] @ [n]"
    using Suc.prems n by (simp add: upto_rec2)
  moreover have "[1..n - 1] = map (\<lambda>i. int i + 1) [0..<nat (n - 1)]"
    using Suc.hyps(1) [of "n - 1"] Suc.hyps(2) Suc.prems n by simp
  moreover have "nat n = Suc k" using n by simp
  ultimately show ?case
    using n by simp
qed

lemma generate_shift_data_kinds:
  assumes "generate_shift_data recipes days dr = Inr data"
  shows "map shift data = map (spec_block_rotation 5 pattern) [0..<nat days]"
proof (cases "0 \<le> days")
  case True
  have "map shift data =
      map (\<lambda>day. pattern ! nat (((day - 1) div rotation) mod int (length pattern))) [1..days]"
    using assms days_loop_kinds by (simp add: generate_shift_data_def)
  also have "\<dots> = map (spec_block_rotation 5 pattern) [0..<nat days]"
    by (simp add: upto_as_map [OF True] spec_block_rotation_def rotation_def pattern_def
        nat_div_distrib nat_mod_distrib zdiv_int zmod_int o_def)
  finally show ?thesis .
next
  case False
  then have "[1..days] = []" by simp
  then have "data = []" using assms by (simp add: generate_shift_data_def)
  with False show ?thesis by simp
qed

subsection \<open>When the daily generator returns\<close>

lemma and_then_Inl_iff:
  "and_then m f = Inl e \<longleftrightarrow> m = Inl e \<or> (\<exists>x. m = Inr x \<and> f x = Inl e)"
  by (cases m) (simp_all add: and_then_def)

lemma get_varied_content_returns:
  assumes "has_candidates content ct" and "used ct \<noteq> None"
  shows "\<exists>x h. get_varied_content content ct used r = (Inr x, used(ct \<mapsto> h))"
proof -
  obtain pool where pool: "content ct = Some pool" "pool \<noteq> []"
    using assms(1) by (auto simp: has_candidates_def split: option.splits)
  obtain h where h: "used ct = Some h" using assms(2) by auto
  let ?recent = "if length pool \<le> length h then [] else h"
  let ?unused = "filter (\<lambda>item. item \<notin> set ?recent) pool"
  let ?from = "if ?unused \<noteq> [] then ?unused else pool"
  have "?from \<noteq> []" using pool(2) by simp
  then obtain x where x: "choice ?from r = Inr x"
    using choice_nonempty_ex by blast
  show ?thesis
    using pool h x by (auto simp: get_varied_content_def Let_def split: if_splits)
qed

lemma get_varied_content_Inr:
  assumes "get_varied_content content ct used r = (Inr x, used1)"
  shows "has_candidates content ct \<and> (\<exists>h. used1 = used(ct \<mapsto> h))"
  using assms
  by (auto simp: get_varied_content_def has_candidates_def Let_def choice_def
      split: option.splits sum.splits if_splits)

lemma histories_present_upd:
  "histories_present used \<Longrightarrow> histories_present (used(ct \<mapsto> h))"
  by (simp add: histories_present_def)

lemma varied_fields_returns:
  assumes "has_candidates content ''special_requests''" and "has_candidates content ''food_details''"
    and "has_candidates content ''complaints''" and "has_candidates content ''debrief''"
    and "histories_present used0"
  shows "\<exists>x used4. varied_fields content dr i used0 = Inr (x, used4) \<and> histories_present used4"
proof -
  obtain sr h1 where 1: "get_varied_content content ''special_requests'' used0 (dr i ''special_requests'')
      = (Inr sr, used0(''special_requests'' \<mapsto> h1))"
    using get_varied_content_returns [OF assms(1)] assms(5) by (metis histories_present_def)
  let ?u1 = "used0(''special_requests'' \<mapsto> h1)"
  have p1: "histories_present ?u1" using assms(5) by (rule histories_present_upd)
  obtain fd h2 where 2: "get_varied_content content ''food_details'' ?u1 (dr i ''food_details'')
      = (Inr fd, ?u1(''food_details'' \<mapsto> h2))"
    using get_varied_content_returns [OF assms(2)] p1 by (metis histories_present_def)
  let ?u2 = "?u1(''food_details'' \<mapsto> h2)"
  have p2: "histories_present ?u2" using p1 by (rule histories_present_upd)
  obtain co h3 where 3: "get_varied_content content ''complaints'' ?u2 (dr i ''complaints'')
      = (Inr co, ?u2(''complaints'' \<mapsto> h3))"
    using get_varied_content_returns [OF assms(3)] p2 by (metis histories_present_def)
  let ?u3 = "?u2(''complaints'' \<mapsto> h3)"
  have p3: "histories_present ?u3" using p2 by (rule histories_present_upd)
  obtain de h4 where 4: "get_varied_content content ''debrief'' ?u3 (dr i ''debrief'')
      = (Inr de, ?u3(''debrief'' \<mapsto> h4))"
    using get_varied_content_returns [OF assms(4)] p3 by (metis histories_present_def)
  let ?u4 = "?u3(''debrief'' \<mapsto> h4)"
  have p4: "histories_present ?u4" using p3 by (rule histories_present_upd)
  have "varied_fields content dr i used0 = Inr ((sr, fd, co, de), ?u4)"
    unfolding varied_fields_def by (simp only: 1 2 3 4 propagate.simps and_then_def sum.case prod.case)
  with p4 show ?thesis by blast
qed

lemma varied_fields_Inr:
  assumes "varied_fields content dr i used0 = Inr (x, used4)"
  shows "has_candidates content ''special_requests'' \<and> has_candidates content ''food_details'' \<and>
         has_candidates content ''complaints'' \<and> has_candidates content ''debrief''"
  using assms
  by (auto simp: varied_fields_def and_then_Inr_iff propagate_Inr_iff
      dest!: get_varied_content_Inr)


lemma kind_configured_iff:
  "kind_configured cfg cont kind \<longleftrightarrow>
     (\<exists>kinds timing st et hrs preps prep wf.
        cfg_shifts cfg = Some kinds \<and> kinds kind = Some timing \<and>
        timing ''start_time'' = Some st \<and> timing ''end_time'' = Some et \<and>
        timing ''hours'' = Some hrs \<and> prepared cont = Some preps \<and> preps kind = Some prep \<and>
        workflows cont (''workflow_'' @ kind) = Some wf)"
  by (auto simp: kind_configured_def split: option.splits)

lemma shift_body_Inr_iff:
  "(\<exists>s used1. shift_body cfg cont dr start i used0 = Inr (s, used1)) \<longleftrightarrow>
     start + int (i div 2) \<le> max_ordinal \<and> cfg_establishment cfg \<noteq> None \<and>
     cfg_menu_style cfg \<noteq> None \<and>
     kind_configured cfg cont (if i mod 2 = 0 then ''lunch'' else ''dinner'') \<and>
     (\<exists>x used4. varied_fields (narrative cont) dr i used0 = Inr (x, used4))"
  unfolding kind_configured_iff
  by (simp add: shift_body_def Let_def and_then_Inr_iff add_days_Inr_iff getkey_Inr_iff
      getitem_Inr_iff split_paired_Ex) blast

lemma shift_body_histories:
  assumes "shift_body cfg cont dr start i used0 = Inr (s, used1)" and "histories_present used0"
  shows "histories_present used1"
proof -
  obtain x where v: "varied_fields (narrative cont) dr i used0 = Inr (x, used1)"
    using assms(1)
    by (auto simp: shift_body_def Let_def and_then_Inr_iff split: prod.splits)
  have c: "has_candidates (narrative cont) ''special_requests''"
      "has_candidates (narrative cont) ''food_details''"
      "has_candidates (narrative cont) ''complaints''"
      "has_candidates (narrative cont) ''debrief''"
    using varied_fields_Inr [OF v] by simp_all
  show ?thesis
    using varied_fields_returns [OF c assms(2), of dr i] v by auto
qed

lemma shifts_loop_returns:
  assumes "inputs_complete cfg cont"
  shows "histories_present used0 \<Longrightarrow> \<forall>i \<in> set idxs. start + int (i div 2) \<le> max_ordinal \<Longrightarrow>
     \<exists>shifts used1. shifts_loop cfg cont dr start idxs used0 = Inr (shifts, used1)"
proof (induction idxs arbitrary: used0)
  case Nil
  then show ?case by simp
next
  case (Cons i rest)
  have c: "has_candidates (narrative cont) ''special_requests''"
      "has_candidates (narrative cont) ''food_details''"
      "has_candidates (narrative cont) ''complaints''"
      "has_candidates (narrative cont) ''debrief''"
    using assms by (simp_all add: inputs_complete_def)
  have v: "\<exists>x used4. varied_fields (narrative cont) dr i used0 = Inr (x, used4)"
    using varied_fields_returns [OF c Cons.prems(1), of dr i] by blast
  have "\<exists>s used1. shift_body cfg cont dr start i used0 = Inr (s, used1)"
    unfolding shift_body_Inr_iff
    using assms Cons.prems(2) v by (simp add: inputs_complete_def)
  then obtain s used1 where b: "shift_body cfg cont dr start i used0 = Inr (s, used1)"
    by blast
  have "histories_present used1"
    using shift_body_histories [OF b Cons.prems(1)] .
  then obtain ss used2 where "shifts_loop cfg cont dr start rest used1 = Inr (ss, used2)"
    using Cons.IH [of used1] Cons.prems(2) by auto
  with b show ?case
    by (simp add: and_then_def)
qed

lemma shifts_loop_Inr_body:
  "shifts_loop cfg cont dr start idxs used0 = Inr (shifts, used1) \<Longrightarrow> i \<in> set idxs \<Longrightarrow>
   \<exists>u s u'. shift_body cfg cont dr start i u = Inr (s, u')"
proof (induction idxs arbitrary: used0 shifts used1)
  case Nil
  then show ?case by simp
next
  case (Cons j rest)
  then obtain s u1 ss u2 where b: "shift_body cfg cont dr start j used0 = Inr (s, u1)"
      and l: "shifts_loop cfg cont dr start rest u1 = Inr (ss, u2)"
    by (auto simp: and_then_Inr_iff split: prod.splits)
  show ?case
  proof (cases "i = j")
    case True
    then show ?thesis using b by blast
  next
    case False
    then have "i \<in> set rest" using Cons.prems(2) by simp
    then show ?thesis using Cons.IH [OF l] by blast
  qed
qed

lemma histories_present_init: "histories_present used_content_init"
  by (simp add: histories_present_def used_content_init_def)

lemma shifts_loop_complete:
  assumes "shifts_loop cfg cont dr start [0..<48] used0 = Inr (shifts, used1)"
  shows "start + 23 \<le> max_ordinal \<and> inputs_complete cfg cont"
proof -
  have m0: "(0::nat) \<in> set [0..<48]" and m1: "(1::nat) \<in> set [0..<48]"
    and m47: "(47::nat) \<in> set [0..<48]"
    by simp_all
  obtain u0 where b0: "\<exists>s u'. shift_body cfg cont dr start 0 u0 = Inr (s, u')"
    using shifts_loop_Inr_body [OF assms m0] by blast
  obtain u1 where b1: "\<exists>s u'. shift_body cfg cont dr start 1 u1 = Inr (s, u')"
    using shifts_loop_Inr_body [OF assms m1] by blast
  obtain u47 where b47: "\<exists>s u'. shift_body cfg cont dr start 47 u47 = Inr (s, u')"
    using shifts_loop_Inr_body [OF assms m47] by blast
  have f0: "cfg_establishment cfg \<noteq> None" "cfg_menu_style cfg \<noteq> None"
      "kind_configured cfg cont ''lunch''"
      "\<exists>x used4. varied_fields (narrative cont) dr 0 u0 = Inr (x, used4)"
    using b0 unfolding shift_body_Inr_iff by simp_all
  have f1: "kind_configured cfg cont ''dinner''"
    using b1 unfolding shift_body_Inr_iff by simp
  have f47: "start + 23 \<le> max_ordinal"
    using b47 unfolding shift_body_Inr_iff by simp
  obtain x used4 where "varied_fields (narrative cont) dr 0 u0 = Inr (x, used4)"
    using f0(4) by blast
  from varied_fields_Inr [OF this] f0 f1 f47 show ?thesis
    by (simp add: inputs_complete_def)
qed

lemma generate_shifts_returns_iff:
  "(\<exists>shifts. generate_shifts strptime cfg cont dr = Inr shifts \<and> length shifts = 48) \<longleftrightarrow>
   (\<exists>date_text start. cfg_start_date cfg = Some date_text \<and> strptime date_text = Inr start \<and>
      start + 23 \<le> max_ordinal \<and> inputs_complete cfg cont)"
proof
  assume "\<exists>shifts. generate_shifts strptime cfg cont dr = Inr shifts \<and> length shifts = 48"
  then obtain shifts date_text start u where
    "cfg_start_date cfg = Some date_text" "strptime date_text = Inr start"
    "shifts_loop cfg cont dr start [0..<48] used_content_init = Inr (shifts, u)"
    by (auto simp: generate_shifts_def and_then_Inr_iff getkey_Inr_iff split: prod.splits)
  then show "\<exists>date_text start. cfg_start_date cfg = Some date_text \<and>
      strptime date_text = Inr start \<and> start + 23 \<le> max_ordinal \<and> inputs_complete cfg cont"
    using shifts_loop_complete by blast
next
  assume "\<exists>date_text start. cfg_start_date cfg = Some date_text \<and> strptime date_text = Inr start \<and>
      start + 23 \<le> max_ordinal \<and> inputs_complete cfg cont"
  then obtain date_text start where a: "cfg_start_date cfg = Some date_text"
      "strptime date_text = Inr start" "start + 23 \<le> max_ordinal" "inputs_complete cfg cont"
    by blast
  have "\<forall>i \<in> set [0..<48]. start + int (i div 2) \<le> max_ordinal"
    using a(3) by auto
  then obtain shifts u where l: "shifts_loop cfg cont dr start [0..<48] used_content_init = Inr (shifts, u)"
    using shifts_loop_returns [OF a(4) histories_present_init] by blast
  then have g: "generate_shifts strptime cfg cont dr = Inr shifts"
    using a(1,2) by (simp add: generate_shifts_def and_then_def getkey_def)
  have "length (map slot_of shifts) = 48"
    using generate_shifts_slots [OF a(1,2) g] by (simp add: spec_schedule_def)
  then show "\<exists>shifts. generate_shifts strptime cfg cont dr = Inr shifts \<and> length shifts = 48"
    using g by simp
qed

lemma generate_shifts_missing_kind:
  assumes "cfg_start_date cfg = Some date_text" and "strptime date_text = Inr start"
    and "start \<le> max_ordinal" and "cfg_establishment cfg \<noteq> None"
    and "cfg_shifts cfg = Some kinds" and "kinds ''lunch'' = None"
  shows "generate_shifts strptime cfg cont dr = Inl (KeyError ''lunch'')"
proof -
  have "[0..<48] = 0 # [1..<48]" by (simp add: upt_conv_Cons)
  then show ?thesis
    using assms
    by (auto simp: generate_shifts_def shift_body_def and_then_def getkey_def getitem_def
        add_days_def Let_def)
qed

subsection \<open>The generators: schedule and errors\<close>

lemma custom_shift_body_slot:
  assumes "custom_shift_body cfg cont custom dr start i used0 = Inr (s, used1)"
  shows "slot_of s = (i + 1, start + int (i div 2), spec_alternation [''Lunch'', ''Dinner''] i)"
  using assms
  by (auto simp: custom_shift_body_def Let_def and_then_Inr_iff add_days_Inr_iff slot_of_def
      alternation_lunch_dinner title_lunch title_dinner split: prod.splits)

lemma custom_shifts_loop_slots:
  "custom_shifts_loop cfg cont custom dr start idxs used0 = Inr (shifts, used1) \<Longrightarrow>
   map slot_of shifts =
     map (\<lambda>i. (i + 1, start + int (i div 2), spec_alternation [''Lunch'', ''Dinner''] i)) idxs"
proof (induction idxs arbitrary: used0 shifts used1)
  case Nil
  then show ?case by simp
next
  case (Cons i rest)
  then obtain s u1 ss u2 where b: "custom_shift_body cfg cont custom dr start i used0 = Inr (s, u1)"
      and l: "custom_shifts_loop cfg cont custom dr start rest u1 = Inr (ss, u2)"
      and e: "shifts = s # ss"
    by (auto simp: and_then_Inr_iff split: prod.splits)
  show ?case
    using custom_shift_body_slot [OF b] Cons.IH [OF l] e by simp
qed

lemma custom_generate_shifts_slots:
  assumes "cfg_start_date cfg = Some date_text" and "strptime date_text = Inr start"
    and "custom_generate_shifts strptime cfg cont custom dr = Inr shifts"
  shows "map slot_of shifts = spec_schedule start 48 2 (spec_alternation [''Lunch'', ''Dinner''])"
proof -
  obtain u where
    "custom_shifts_loop cfg cont custom dr start [0..<48] used_content_init = Inr (shifts, u)"
    using assms
    by (auto simp: custom_generate_shifts_def and_then_Inr_iff getkey_Inr_iff split: prod.splits)
  then show ?thesis
    using custom_shifts_loop_slots by (simp add: spec_schedule_def)
qed

lemma example_inputs_complete: "inputs_complete example_config example_content"
  by (simp add: inputs_complete_def kind_configured_def has_candidates_def example_config_def
      example_content_def)

lemma upto_1_6: "[1..6] = [1, 2, 3, 4, 5, 6::int]"
  by (simp add: upto_rec1)

subsection \<open>The daily generator: errors\<close>

text \<open>
  C9 (amended). \<open>generate_shifts\<close> has no configuration check and no parameter for
  the kinds or the slots per day: the kinds are \<open>lunch\<close> and \<open>dinner\<close>, two a day,
  48 shifts. It returns, with exactly 48 shifts, if and only if the start date is
  present, parses and is at least 23 days before the last date, and the configuration
  and the content have every key the loop reads for both kinds, with a candidate in
  each of the four pools; otherwise it raises and returns no shift. A configuration
  with no \<open>lunch\<close> kind makes it raise \<open>KeyError\<close>.
\<close>

theorem generate_shifts_returns_when_complete:
  "((\<exists>shifts. generate_shifts strptime cfg cont dr = Inr shifts \<and> length shifts = 48) \<longleftrightarrow>
    (\<exists>date_text start. cfg_start_date cfg = Some date_text \<and> strptime date_text = Inr start \<and>
       start + 23 \<le> max_ordinal \<and> inputs_complete cfg cont)) \<and>
   (\<forall>shifts. generate_shifts strptime cfg cont dr = Inr shifts \<longrightarrow> length shifts = 48) \<and>
   (cfg_start_date cfg = Some date_text \<and> strptime date_text = Inr start \<and>
    start \<le> max_ordinal \<and> cfg_establishment cfg \<noteq> None \<and>
    cfg_shifts cfg = Some kinds \<and> kinds ''lunch'' = None \<longrightarrow>
      generate_shifts strptime cfg cont dr = Inl (KeyError ''lunch''))"
proof (intro conjI allI impI)
  show "(\<exists>shifts. generate_shifts strptime cfg cont dr = Inr shifts \<and> length shifts = 48) \<longleftrightarrow>
    (\<exists>date_text start. cfg_start_date cfg = Some date_text \<and> strptime date_text = Inr start \<and>
       start + 23 \<le> max_ordinal \<and> inputs_complete cfg cont)"
    by (rule generate_shifts_returns_iff)
next
  fix shifts assume g: "generate_shifts strptime cfg cont dr = Inr shifts"
  then obtain t s where "cfg_start_date cfg = Some t" "strptime t = Inr s"
    by (auto simp: generate_shifts_def and_then_Inr_iff getkey_Inr_iff)
  from generate_shifts_slots [OF this g] have "length (map slot_of shifts) = 48"
    by (simp add: spec_schedule_def)
  then show "length shifts = 48" by simp
next
  assume "cfg_start_date cfg = Some date_text \<and> strptime date_text = Inr start \<and>
    start \<le> max_ordinal \<and> cfg_establishment cfg \<noteq> None \<and>
    cfg_shifts cfg = Some kinds \<and> kinds ''lunch'' = None"
  then show "generate_shifts strptime cfg cont dr = Inl (KeyError ''lunch'')"
    using generate_shifts_missing_kind by blast
qed

theorem generate_shifts_returns_when_complete_witness:
  "(\<exists>shifts. generate_shifts example_strptime example_config example_content (\<lambda>i field. 0)
      = Inr shifts \<and> length shifts = 48) \<and>
   generate_shifts example_strptime (example_config\<lparr>cfg_shifts := Some Map.empty\<rparr>)
     example_content (\<lambda>i field. 0) = Inl (KeyError ''lunch'')"
proof -
  have d: "cfg_start_date example_config = Some ''2024-01-01''"
    by (simp add: example_config_def)
  have p: "example_strptime ''2024-01-01'' = Inr 738886"
    by (simp add: example_strptime_def)
  have ok: "\<exists>date_text start. cfg_start_date example_config = Some date_text \<and>
      example_strptime date_text = Inr start \<and> start + 23 \<le> max_ordinal \<and>
      inputs_complete example_config example_content"
    using d p example_inputs_complete by (simp add: max_ordinal_def)
  have first: "\<exists>shifts. generate_shifts example_strptime example_config example_content
      (\<lambda>i field. 0) = Inr shifts \<and> length shifts = 48"
    using generate_shifts_returns_when_complete
      [of example_strptime example_config example_content "\<lambda>i field. 0"] ok
    by blast
  have second: "generate_shifts example_strptime (example_config\<lparr>cfg_shifts := Some Map.empty\<rparr>)
     example_content (\<lambda>i field. 0) = Inl (KeyError ''lunch'')"
    using generate_shifts_returns_when_complete
      [of example_strptime "example_config\<lparr>cfg_shifts := Some Map.empty\<rparr>" example_content
        "\<lambda>i field. 0" "''2024-01-01''" 738886 Map.empty]
    by (simp add: example_config_def example_strptime_def max_ordinal_def)
  show ?thesis using first second by blast
qed

text \<open>
  The claim as stated fails: with no kind configured the generator raises
  \<open>KeyError\<close>, the only error a missing key gives, and with both kinds configured
  and an empty pool it raises \<open>IndexError\<close> instead of returning.
\<close>

lemma upt_0_48: "[0..<48] = 0 # [1..<48]"
  by (simp add: upt_conv_Cons)

theorem generate_shifts_other_errors:
  "generate_shifts example_strptime (example_config\<lparr>cfg_shifts := Some Map.empty\<rparr>)
     example_content (\<lambda>i field. 0) = Inl (KeyError ''lunch'') \<and>
   generate_shifts example_strptime example_config
     (example_content\<lparr>narrative := (narrative example_content)(''debrief'' \<mapsto> [])\<rparr>)
     (\<lambda>i field. 0) = Inl IndexError"
  by (simp add: generate_shifts_def upt_0_48 shift_body_def varied_fields_def
      get_varied_content_def choice_def and_then_def getkey_def getitem_def add_days_def
      max_ordinal_def used_content_init_def example_config_def example_content_def
      example_strptime_def Let_def)

subsection \<open>Override or pool: the custom records and the spreadsheet\<close>

lemma choice_Inr_iff:
  "choice seq r = Inr x \<longleftrightarrow> seq \<noteq> [] \<and> x = seq ! (r mod length seq)"
  by (auto simp: choice_def)

lemma custom_field_override:
  "custom_shift field = Some (Str s) \<Longrightarrow> strip s \<noteq> [] \<Longrightarrow>
   custom_field content_pools custom_shift field r = Inr s"
  by (simp add: custom_field_def)

lemma custom_field_pool:
  assumes "custom_shift field = None \<or> (\<exists>s. custom_shift field = Some (Str s) \<and> strip s = [])"
  shows "custom_field content_pools custom_shift field r =
     and_then (getitem content_pools field) (\<lambda>pool. choice pool r)"
  using assms by (auto simp: custom_field_def)

lemma custom_field_Inr:
  assumes "custom_field content_pools custom_shift field r = Inr x"
  shows "(\<forall>s. custom_shift field = Some (Str s) \<and> strip s \<noteq> [] \<longrightarrow> x = s) \<and>
         (custom_shift field = None \<or> (\<exists>s. custom_shift field = Some (Str s) \<and> strip s = []) \<longrightarrow>
            (\<exists>pool. content_pools field = Some pool \<and> pool \<noteq> [] \<and>
               x = pool ! (r mod length pool) \<and> x \<in> set pool))"
  using assms
  by (auto simp: custom_field_def and_then_Inr_iff getitem_Inr_iff choice_Inr_iff
      split: option.splits cell.splits if_splits)

lemma custom_field_returns:
  assumes "has_candidates content_pools field" and "custom_shift field \<noteq> Some NaN"
  shows "\<exists>x. custom_field content_pools custom_shift field r = Inr x"
  using assms
  by (auto simp: custom_field_def has_candidates_def and_then_def getitem_def choice_def
      split: option.splits cell.splits)

lemma merge_custom_data_Inr:
  assumes "merge_custom_data cont dr i custom_shift kind = Inr (prep, sr, fd, co, de)"
  shows "(\<exists>preps dflt. prepared cont = Some preps \<and> preps kind = Some dflt \<and>
            prep = (case custom_shift ''prepared_service'' of Some v \<Rightarrow> v | None \<Rightarrow> Str dflt)) \<and>
         custom_field (narrative cont) custom_shift ''special_requests'' (dr i ''special_requests'') = Inr sr \<and>
         custom_field (narrative cont) custom_shift ''food_details'' (dr i ''food_details'') = Inr fd \<and>
         custom_field (narrative cont) custom_shift ''complaints'' (dr i ''complaints'') = Inr co \<and>
         custom_field (narrative cont) custom_shift ''debrief'' (dr i ''debrief'') = Inr de"
  using assms
  by (auto simp: merge_custom_data_def Let_def and_then_Inr_iff getitem_Inr_iff getkey_Inr_iff)

lemma merge_custom_data_returns:
  assumes "prepared cont = Some preps" and "preps kind = Some dflt"
    and "\<forall>f \<in> set [''special_requests'', ''food_details'', ''complaints'', ''debrief''].
           has_candidates (narrative cont) f \<and> custom_shift f \<noteq> Some NaN"
  shows "\<exists>res. merge_custom_data cont dr i custom_shift kind = Inr res"
proof -
  obtain sr where 1: "custom_field (narrative cont) custom_shift ''special_requests''
      (dr i ''special_requests'') = Inr sr"
    using custom_field_returns [of "narrative cont" "''special_requests''" custom_shift] assms(3)
    by auto
  obtain fd where 2: "custom_field (narrative cont) custom_shift ''food_details''
      (dr i ''food_details'') = Inr fd"
    using custom_field_returns [of "narrative cont" "''food_details''" custom_shift] assms(3)
    by auto
  obtain co where 3: "custom_field (narrative cont) custom_shift ''complaints''
      (dr i ''complaints'') = Inr co"
    using custom_field_returns [of "narrative cont" "''complaints''" custom_shift] assms(3)
    by auto
  obtain de where 4: "custom_field (narrative cont) custom_shift ''debrief''
      (dr i ''debrief'') = Inr de"
    using custom_field_returns [of "narrative cont" "''debrief''" custom_shift] assms(3)
    by auto
  show ?thesis
    using assms(1,2) 1 2 3 4
    by (simp add: merge_custom_data_def Let_def and_then_def getitem_def getkey_def)
qed

lemma fill_cell_Inr_iff:
  "fill_cell content_pools row col key r filled = Inr f \<longleftrightarrow>
     (\<exists>v. row col = Some v \<and>
        (if blank v
         then \<exists>pool. content_pools key = Some pool \<and> pool \<noteq> [] \<and>
                f = filled(col \<mapsto> Str (pool ! (r mod length pool)))
         else f = filled))"
  by (auto simp: fill_cell_def and_then_Inr_iff getitem_Inr_iff choice_Inr_iff)

lemma fill_cell_same_col:
  assumes "fill_cell content_pools row col key r filled = Inr f" and "filled col = row col"
  shows "\<exists>v. row col = Some v \<and>
           (if blank v then filled_from content_pools key r (f col) else f col = Some v)"
proof -
  obtain v where v: "row col = Some v"
    and r: "if blank v
         then \<exists>pool. content_pools key = Some pool \<and> pool \<noteq> [] \<and>
                f = filled(col \<mapsto> Str (pool ! (r mod length pool)))
         else f = filled"
    using assms(1) unfolding fill_cell_Inr_iff by blast
  show ?thesis
  proof (cases "blank v")
    case True
    then obtain pool where "content_pools key = Some pool" "pool \<noteq> []"
        "f = filled(col \<mapsto> Str (pool ! (r mod length pool)))"
      using r by auto
    then have "filled_from content_pools key r (f col)"
      by (simp add: filled_from_def)
    with v True show ?thesis by simp
  next
    case False
    then have "f = filled" using r by simp
    with v False assms(2) show ?thesis by simp
  qed
qed

lemma fill_cell_other_col:
  assumes "fill_cell content_pools row col key r filled = Inr f" and "c \<noteq> col"
  shows "f c = filled c"
  using assms unfolding fill_cell_Inr_iff
  by (auto split: if_splits)

lemma fill_row_Inr:
  assumes "fill_row content_pools dr index row = Inr f"
  shows "\<forall>(col, key) \<in> set report_columns.
           \<exists>v. row col = Some v \<and>
             (if blank v then filled_from content_pools key (dr index col) (f col)
              else f col = Some v)"
    and "\<forall>col. col \<notin> fst ` set report_columns \<longrightarrow> f col = row col"
proof -
  obtain f1 f2 f3 f4 where
    1: "fill_cell content_pools row ''food_details'' ''food_details''
          (dr index ''food_details'') row = Inr f1" and
    2: "fill_cell content_pools row ''special_requests'' ''special_requests''
          (dr index ''special_requests'') f1 = Inr f2" and
    3: "fill_cell content_pools row ''complaints_problems'' ''problems''
          (dr index ''complaints_problems'') f2 = Inr f3" and
    4: "fill_cell content_pools row ''solutions_implemented'' ''solutions''
          (dr index ''solutions_implemented'') f3 = Inr f4" and
    5: "fill_cell content_pools row ''debrief_learnings'' ''learnings''
          (dr index ''debrief_learnings'') f4 = Inr f"
    using assms by (auto simp: fill_row_def and_then_Inr_iff)
  note o1 = fill_cell_other_col [OF 1] and o2 = fill_cell_other_col [OF 2]
    and o3 = fill_cell_other_col [OF 3] and o4 = fill_cell_other_col [OF 4]
    and o5 = fill_cell_other_col [OF 5]
  have e1: "f ''food_details'' = f1 ''food_details''"
    by (simp add: o5 o4 o3 o2)
  have e2: "f ''special_requests'' = f2 ''special_requests''"
    and b2: "f1 ''special_requests'' = row ''special_requests''"
    by (simp_all add: o5 o4 o3 o1)
  have e3: "f ''complaints_problems'' = f3 ''complaints_problems''"
    and b3: "f2 ''complaints_problems'' = row ''complaints_problems''"
    by (simp_all add: o5 o4 o2 o1)
  have e4: "f ''solutions_implemented'' = f4 ''solutions_implemented''"
    and b4: "f3 ''solutions_implemented'' = row ''solutions_implemented''"
    by (simp_all add: o5 o3 o2 o1)
  have b5: "f4 ''debrief_learnings'' = row ''debrief_learnings''"
    by (simp add: o4 o3 o2 o1)
  have c1: "\<exists>v. row ''food_details'' = Some v \<and>
      (if blank v then filled_from content_pools ''food_details'' (dr index ''food_details'')
         (f ''food_details'') else f ''food_details'' = Some v)"
    unfolding e1 by (rule fill_cell_same_col [OF 1 refl])
  have c2: "\<exists>v. row ''special_requests'' = Some v \<and>
      (if blank v then filled_from content_pools ''special_requests'' (dr index ''special_requests'')
         (f ''special_requests'') else f ''special_requests'' = Some v)"
    unfolding e2 by (rule fill_cell_same_col [OF 2 b2])
  have c3: "\<exists>v. row ''complaints_problems'' = Some v \<and>
      (if blank v then filled_from content_pools ''problems'' (dr index ''complaints_problems'')
         (f ''complaints_problems'') else f ''complaints_problems'' = Some v)"
    unfolding e3 by (rule fill_cell_same_col [OF 3 b3])
  have c4: "\<exists>v. row ''solutions_implemented'' = Some v \<and>
      (if blank v then filled_from content_pools ''solutions'' (dr index ''solutions_implemented'')
         (f ''solutions_implemented'') else f ''solutions_implemented'' = Some v)"
    unfolding e4 by (rule fill_cell_same_col [OF 4 b4])
  have c5: "\<exists>v. row ''debrief_learnings'' = Some v \<and>
      (if blank v then filled_from content_pools ''learnings'' (dr index ''debrief_learnings'')
         (f ''debrief_learnings'') else f ''debrief_learnings'' = Some v)"
    by (rule fill_cell_same_col [OF 5 b5])
  show "\<forall>(col, key) \<in> set report_columns.
           \<exists>v. row col = Some v \<and>
             (if blank v then filled_from content_pools key (dr index col) (f col)
              else f col = Some v)"
    unfolding report_columns_def using c1 c2 c3 c4 c5 by simp
  show "\<forall>col. col \<notin> fst ` set report_columns \<longrightarrow> f col = row col"
  proof (intro allI impI)
    fix col assume "col \<notin> fst ` set report_columns"
    then have n: "col \<noteq> ''food_details''" "col \<noteq> ''special_requests''"
        "col \<noteq> ''complaints_problems''" "col \<noteq> ''solutions_implemented''"
        "col \<noteq> ''debrief_learnings''"
      by (auto simp: report_columns_def)
    show "f col = row col"
      using o1 [OF n(1)] o2 [OF n(2)] o3 [OF n(3)] o4 [OF n(4)] o5 [OF n(5)] by simp
  qed
qed

lemma fill_cell_returns:
  assumes "row col \<noteq> None" and "has_candidates content_pools key"
  shows "\<exists>f. fill_cell content_pools row col key r filled = Inr f"
  using assms unfolding fill_cell_Inr_iff
  by (auto simp: has_candidates_def split: option.splits)

lemma fill_row_returns:
  assumes "\<forall>(col, key) \<in> set report_columns. row col \<noteq> None \<and> has_candidates content_pools key"
  shows "\<exists>f. fill_row content_pools dr index row = Inr f"
proof -
  have a: "row ''food_details'' \<noteq> None" "has_candidates content_pools ''food_details''"
      "row ''special_requests'' \<noteq> None" "has_candidates content_pools ''special_requests''"
      "row ''complaints_problems'' \<noteq> None" "has_candidates content_pools ''problems''"
      "row ''solutions_implemented'' \<noteq> None" "has_candidates content_pools ''solutions''"
      "row ''debrief_learnings'' \<noteq> None" "has_candidates content_pools ''learnings''"
    using assms by (simp_all add: report_columns_def)
  obtain f1 where 1: "fill_cell content_pools row ''food_details'' ''food_details''
          (dr index ''food_details'') row = Inr f1"
    using fill_cell_returns [of row "''food_details''" content_pools "''food_details''"] a by blast
  obtain f2 where 2: "fill_cell content_pools row ''special_requests'' ''special_requests''
          (dr index ''special_requests'') f1 = Inr f2"
    using fill_cell_returns [of row "''special_requests''" content_pools "''special_requests''"] a by blast
  obtain f3 where 3: "fill_cell content_pools row ''complaints_problems'' ''problems''
          (dr index ''complaints_problems'') f2 = Inr f3"
    using fill_cell_returns [of row "''complaints_problems''" content_pools "''problems''"] a by blast
  obtain f4 where 4: "fill_cell content_pools row ''solutions_implemented'' ''solutions''
          (dr index ''solutions_implemented'') f3 = Inr f4"
    using fill_cell_returns [of row "''solutions_implemented''" content_pools "''solutions''"] a by blast
  obtain f5 where 5: "fill_cell content_pools row ''debrief_learnings'' ''learnings''
          (dr index ''debrief_learnings'') f4 = Inr f5"
    using fill_cell_returns [of row "''debrief_learnings''" content_pools "''learnings''"] a by blast
  show ?thesis
    unfolding fill_row_def by (simp only: 1 2 3 4 5 and_then_def sum.case) blast
qed

lemma fill_rows_Inr:
  "fill_rows content_pools dr index rows = Inr fs \<Longrightarrow>
   length fs = length rows \<and>
   (\<forall>k < length rows. fill_row content_pools dr (index + k) (rows ! k) = Inr (fs ! k))"
proof (induction rows arbitrary: index fs)
  case Nil
  then show ?case by simp
next
  case (Cons row rows)
  then obtain f fs' where f: "fill_row content_pools dr index row = Inr f"
      and l: "fill_rows content_pools dr (index + 1) rows = Inr fs'" and e: "fs = f # fs'"
    by (auto simp: and_then_Inr_iff)
  have ih: "length fs' = length rows"
      "\<forall>k < length rows. fill_row content_pools dr (index + 1 + k) (rows ! k) = Inr (fs' ! k)"
    using Cons.IH [OF l] by simp_all
  show ?case
  proof (intro conjI allI impI)
    show "length fs = length (row # rows)" using ih(1) e by simp
  next
    fix k assume "k < length (row # rows)"
    then show "fill_row content_pools dr (index + k) ((row # rows) ! k) = Inr (fs ! k)"
      using f ih(2) e by (cases k) simp_all
  qed
qed

lemma fill_rows_returns:
  "\<forall>row \<in> set rows. \<forall>index. \<exists>f. fill_row content_pools dr index row = Inr f \<Longrightarrow>
   \<exists>fs. fill_rows content_pools dr index rows = Inr fs"
proof (induction rows arbitrary: index)
  case Nil
  then show ?case by simp
next
  case (Cons row rows)
  have "\<forall>index. \<exists>f. fill_row content_pools dr index row = Inr f"
    using Cons.prems by simp
  then obtain f where f: "fill_row content_pools dr index row = Inr f"
    by blast
  obtain fs where "fill_rows content_pools dr (index + 1) rows = Inr fs"
    using Cons.IH [of "index + 1"] Cons.prems by auto
  with f show ?case by (simp add: and_then_def)
qed

lemma fill_missing_data_cells:
  assumes "fill_missing_data content_pools dr df = Inr filled"
  shows "length filled = length df \<and>
     (\<forall>k < length df. \<forall>(col, key) \<in> set report_columns.
        \<exists>v. (df ! k) col = Some v \<and>
          (if blank v then filled_from content_pools key (dr k col) ((filled ! k) col)
           else (filled ! k) col = Some v))"
proof -
  have r: "length filled = length df"
      "\<forall>k < length df. fill_row content_pools dr (0 + k) (df ! k) = Inr (filled ! k)"
    using fill_rows_Inr [of content_pools dr 0 df filled] assms
    by (simp_all add: fill_missing_data_def)
  show ?thesis
  proof (intro conjI allI impI)
    show "length filled = length df" by (rule r(1))
  next
    fix k assume "k < length df"
    then have "fill_row content_pools dr k (df ! k) = Inr (filled ! k)"
      using r(2) by simp
    then show "\<forall>(col, key) \<in> set report_columns.
        \<exists>v. (df ! k) col = Some v \<and>
          (if blank v then filled_from content_pools key (dr k col) ((filled ! k) col)
           else (filled ! k) col = Some v)"
      by (rule fill_row_Inr(1))
  qed
qed

lemma fill_missing_data_returns:
  assumes "\<forall>row \<in> set df. \<forall>(col, key) \<in> set report_columns. row col \<noteq> None"
    and "\<forall>(col, key) \<in> set report_columns. has_candidates content_pools key"
  shows "\<exists>filled. fill_missing_data content_pools dr df = Inr filled"
proof -
  have "\<forall>row \<in> set df. \<forall>index. \<exists>f. fill_row content_pools dr index row = Inr f"
  proof (intro ballI allI)
    fix row index assume "row \<in> set df"
    then have "\<forall>(col, key) \<in> set report_columns. row col \<noteq> None \<and> has_candidates content_pools key"
      using assms by fastforce
    then show "\<exists>f. fill_row content_pools dr index row = Inr f"
      by (rule fill_row_returns)
  qed
  then show ?thesis
    unfolding fill_missing_data_def by (rule fill_rows_returns)
qed

text \<open>
  C2 (amended). In the custom-JSON path (\<open>merge_custom_data\<close>) each of the four
  fields special requests, food details, complaints and debrief equals the override
  verbatim when the override is present and non-blank after trimming whitespace, and is
  the candidate the draw picks from the field's pool when the override is absent or
  blank after trimming; the prepared-for-service field is the override whenever the key
  is present (whatever its value) and otherwise the fixed text of the shift's kind. In
  the spreadsheet path (\<open>CSVProcessor.fill_missing_data\<close>, which has no
  prepared-for-service column) each of the five narrative cells is filled with the
  candidate the draw picks from its pool when it is \<open>NaN\<close> or the empty string, and is
  kept verbatim otherwise. Both functions return when the pools have candidates (and
  the custom values are text, the columns present).
\<close>

theorem override_or_pool:
  "(merge_custom_data cont dr i custom_shift kind = Inr (prep, sr, fd, co, de) \<longrightarrow>
      (\<forall>v. custom_shift ''prepared_service'' = Some v \<longrightarrow> prep = v) \<and>
      (custom_shift ''prepared_service'' = None \<longrightarrow>
         (\<exists>preps dflt. prepared cont = Some preps \<and> preps kind = Some dflt \<and> prep = Str dflt)) \<and>
      (\<forall>(field, x) \<in> set [(''special_requests'', sr), (''food_details'', fd),
                             (''complaints'', co), (''debrief'', de)].
         (\<forall>s. custom_shift field = Some (Str s) \<and> strip s \<noteq> [] \<longrightarrow> x = s) \<and>
         (custom_shift field = None \<or> (\<exists>s. custom_shift field = Some (Str s) \<and> strip s = []) \<longrightarrow>
            (\<exists>pool. narrative cont field = Some pool \<and> pool \<noteq> [] \<and>
               x = pool ! (dr i field mod length pool) \<and> x \<in> set pool)))) \<and>
   (prepared cont = Some preps \<and> preps kind = Some dflt \<and>
    (\<forall>f \<in> set [''special_requests'', ''food_details'', ''complaints'', ''debrief''].
       has_candidates (narrative cont) f \<and> custom_shift f \<noteq> Some NaN) \<longrightarrow>
      (\<exists>res. merge_custom_data cont dr i custom_shift kind = Inr res)) \<and>
   (fill_missing_data content_pools dr2 df = Inr filled \<longrightarrow>
      length filled = length df \<and>
      (\<forall>k < length df. \<forall>(col, key) \<in> set report_columns.
         \<exists>v. (df ! k) col = Some v \<and>
           (if blank v then filled_from content_pools key (dr2 k col) ((filled ! k) col)
            else (filled ! k) col = Some v))) \<and>
   ((\<forall>row \<in> set df. \<forall>(col, key) \<in> set report_columns. row col \<noteq> None) \<and>
    (\<forall>(col, key) \<in> set report_columns. has_candidates content_pools key) \<longrightarrow>
      (\<exists>filled. fill_missing_data content_pools dr2 df = Inr filled))"
proof -
  have A: "merge_custom_data cont dr i custom_shift kind = Inr (prep, sr, fd, co, de) \<longrightarrow>
      (\<forall>v. custom_shift ''prepared_service'' = Some v \<longrightarrow> prep = v) \<and>
      (custom_shift ''prepared_service'' = None \<longrightarrow>
         (\<exists>preps dflt. prepared cont = Some preps \<and> preps kind = Some dflt \<and> prep = Str dflt)) \<and>
      (\<forall>(field, x) \<in> set [(''special_requests'', sr), (''food_details'', fd),
                             (''complaints'', co), (''debrief'', de)].
         (\<forall>s. custom_shift field = Some (Str s) \<and> strip s \<noteq> [] \<longrightarrow> x = s) \<and>
         (custom_shift field = None \<or> (\<exists>s. custom_shift field = Some (Str s) \<and> strip s = []) \<longrightarrow>
            (\<exists>pool. narrative cont field = Some pool \<and> pool \<noteq> [] \<and>
               x = pool ! (dr i field mod length pool) \<and> x \<in> set pool)))"
  proof
    assume m: "merge_custom_data cont dr i custom_shift kind = Inr (prep, sr, fd, co, de)"
    note r = merge_custom_data_Inr [OF m]
    have p1: "\<forall>v. custom_shift ''prepared_service'' = Some v \<longrightarrow> prep = v"
      using r by auto
    have p2: "custom_shift ''prepared_service'' = None \<longrightarrow>
         (\<exists>preps dflt. prepared cont = Some preps \<and> preps kind = Some dflt \<and> prep = Str dflt)"
      using r by auto
    have f1: "custom_field (narrative cont) custom_shift ''special_requests''
        (dr i ''special_requests'') = Inr sr"
      and f2: "custom_field (narrative cont) custom_shift ''food_details''
        (dr i ''food_details'') = Inr fd"
      and f3: "custom_field (narrative cont) custom_shift ''complaints''
        (dr i ''complaints'') = Inr co"
      and f4: "custom_field (narrative cont) custom_shift ''debrief''
        (dr i ''debrief'') = Inr de"
      using r by simp_all
    have p3: "\<forall>(field, x) \<in> set [(''special_requests'', sr), (''food_details'', fd),
                             (''complaints'', co), (''debrief'', de)].
         (\<forall>s. custom_shift field = Some (Str s) \<and> strip s \<noteq> [] \<longrightarrow> x = s) \<and>
         (custom_shift field = None \<or> (\<exists>s. custom_shift field = Some (Str s) \<and> strip s = []) \<longrightarrow>
            (\<exists>pool. narrative cont field = Some pool \<and> pool \<noteq> [] \<and>
               x = pool ! (dr i field mod length pool) \<and> x \<in> set pool))"
      using custom_field_Inr [OF f1] custom_field_Inr [OF f2] custom_field_Inr [OF f3]
        custom_field_Inr [OF f4]
      by simp
    show "(\<forall>v. custom_shift ''prepared_service'' = Some v \<longrightarrow> prep = v) \<and>
      (custom_shift ''prepared_service'' = None \<longrightarrow>
         (\<exists>preps dflt. prepared cont = Some preps \<and> preps kind = Some dflt \<and> prep = Str dflt)) \<and>
      (\<forall>(field, x) \<in> set [(''special_requests'', sr), (''food_details'', fd),
                             (''complaints'', co), (''debrief'', de)].
         (\<forall>s. custom_shift field = Some (Str s) \<and> strip s \<noteq> [] \<longrightarrow> x = s) \<and>
         (custom_shift field = None \<or> (\<exists>s. custom_shift field = Some (Str s) \<and> strip s = []) \<longrightarrow>
            (\<exists>pool. narrative cont field = Some pool \<and> pool \<noteq> [] \<and>
               x = pool ! (dr i field mod length pool) \<and> x \<in> set pool)))"
      by (intro conjI p1 p2 p3)
  qed
  have B: "prepared cont = Some preps \<and> preps kind = Some dflt \<and>
    (\<forall>f \<in> set [''special_requests'', ''food_details'', ''complaints'', ''debrief''].
       has_candidates (narrative cont) f \<and> custom_shift f \<noteq> Some NaN) \<longrightarrow>
      (\<exists>res. merge_custom_data cont dr i custom_shift kind = Inr res)"
    using merge_custom_data_returns [of cont preps kind dflt custom_shift dr i] by blast
  have C: "fill_missing_data content_pools dr2 df = Inr filled \<longrightarrow>
      length filled = length df \<and>
      (\<forall>k < length df. \<forall>(col, key) \<in> set report_columns.
         \<exists>v. (df ! k) col = Some v \<and>
           (if blank v then filled_from content_pools key (dr2 k col) ((filled ! k) col)
            else (filled ! k) col = Some v))"
    using fill_missing_data_cells [of content_pools dr2 df filled] by blast
  have D: "(\<forall>row \<in> set df. \<forall>(col, key) \<in> set report_columns. row col \<noteq> None) \<and>
    (\<forall>(col, key) \<in> set report_columns. has_candidates content_pools key) \<longrightarrow>
      (\<exists>filled. fill_missing_data content_pools dr2 df = Inr filled)"
    using fill_missing_data_returns [of df content_pools dr2] by blast
  show ?thesis
    by (intro conjI A B C D)
qed

lemma strip_simps:
  "strip ''My dish.'' = ''My dish.''" "strip ''  '' = []" "strip '' '' = []" "strip [] = []"
  by (simp_all add: strip_def isspace_def whitespace_def)

theorem override_or_pool_witness:
  "merge_custom_data example_content (\<lambda>i field. 1) 1
     [''food_details'' \<mapsto> Str ''My dish.'', ''debrief'' \<mapsto> Str ''  ''] ''dinner'' =
     Inr (Str ''Set up the dinner station.'', ''Sauce on the side.'', ''My dish.'', ''None.'',
          ''Quiet.'') \<and>
   map_sum id (map (\<lambda>row. (row ''food_details'', row ''special_requests'')))
     (fill_missing_data example_pools (\<lambda>index col. 1) [example_row(''food_details'' \<mapsto> NaN)]) =
     Inr [(Some (Str ''Risotto.''), Some (Str ''Table 4: no salt.''))]"
  using override_or_pool
    [of example_content "\<lambda>i field. 1" 1
      "[''food_details'' \<mapsto> Str ''My dish.'', ''debrief'' \<mapsto> Str ''  '']" "''dinner''"
      "Str ''Set up the dinner station.''" "''Sauce on the side.''" "''My dish.''" "''None.''"
      "''Quiet.''"]
  by (simp add: merge_custom_data_def custom_field_def strip_simps fill_missing_data_def
      fill_row_def fill_cell_def blank_def choice_def and_then_def getitem_def getkey_def
      example_content_def example_pools_def example_row_def Let_def)

text \<open>
  The claim as stated fails: a custom record whose prepared-for-service text is empty
  keeps the empty text, and a spreadsheet cell holding one space (blank after trimming)
  is kept, not filled from the pool.
\<close>

theorem blank_override_kept:
  "map_sum id fst
     (merge_custom_data example_content (\<lambda>i field. 0) 0
        [''prepared_service'' \<mapsto> Str ''''] ''lunch'') = Inr (Str '''') \<and>
   strip '' '' = [] \<and>
   map_sum id (map (\<lambda>row. row ''food_details''))
     (fill_missing_data example_pools (\<lambda>index col. 0)
        [example_row(''food_details'' \<mapsto> Str '' '')]) = Inr [Some (Str '' '')]"
  by (simp add: merge_custom_data_def custom_field_def strip_simps fill_missing_data_def
      fill_row_def fill_cell_def blank_def choice_def and_then_def getitem_def getkey_def
      example_content_def example_pools_def example_row_def Let_def)

subsection \<open>The schedules: the generators return\<close>

text \<open>
  With complete inputs the custom generator returns as the automatic one does, a custom
  record changing no index, date or kind; the rotation returns whenever the three
  recipe lists are present and not empty.
\<close>

lemma generate_automatic_data_returns:
  assumes "prepared cont = Some preps" and "preps kind = Some prep"
    and "has_candidates (narrative cont) ''special_requests''"
    and "has_candidates (narrative cont) ''food_details''"
    and "has_candidates (narrative cont) ''complaints''"
    and "has_candidates (narrative cont) ''debrief''"
    and "histories_present used0"
  shows "\<exists>res used4. generate_automatic_data cont dr i kind used0 = Inr (res, used4) \<and>
           histories_present used4"
proof -
  obtain x used4 where v: "varied_fields (narrative cont) dr i used0 = Inr (x, used4)"
    and h: "histories_present used4"
    using varied_fields_returns [OF assms(3-7), of dr i] by blast
  obtain sr fd co de where x: "x = (sr, fd, co, de)" by (cases x) auto
  show ?thesis
    using assms(1,2) v h x
    by (simp add: generate_automatic_data_def and_then_def getkey_def getitem_def)
qed

lemma custom_shift_body_returns:
  assumes c: "inputs_complete cfg cont" and h: "histories_present used0"
    and d: "start + int (i div 2) \<le> max_ordinal"
    and t: "\<forall>n cs. custom n = Some cs \<longrightarrow>
          (\<forall>f \<in> set [''special_requests'', ''food_details'', ''complaints'', ''debrief''].
             cs f \<noteq> Some NaN)"
  shows "\<exists>s used1. custom_shift_body cfg cont custom dr start i used0 = Inr (s, used1) \<and>
           histories_present used1"
proof -
  define kind where "kind = (if i mod 2 = 0 then ''lunch'' else ''dinner'')"
  have p: "has_candidates (narrative cont) ''special_requests''"
      "has_candidates (narrative cont) ''food_details''"
      "has_candidates (narrative cont) ''complaints''"
      "has_candidates (narrative cont) ''debrief''"
    using c by (simp_all add: inputs_complete_def)
  have "kind_configured cfg cont kind"
    using c by (simp add: inputs_complete_def kind_def)
  then obtain kinds timing st et hrs preps prep wf where k:
      "cfg_shifts cfg = Some kinds" "kinds kind = Some timing"
      "timing ''start_time'' = Some st" "timing ''end_time'' = Some et"
      "timing ''hours'' = Some hrs" "prepared cont = Some preps" "preps kind = Some prep"
      "workflows cont (''workflow_'' @ kind) = Some wf"
    unfolding kind_configured_iff by blast
  obtain est ms where e: "cfg_establishment cfg = Some est" "cfg_menu_style cfg = Some ms"
    using c by (auto simp: inputs_complete_def)
  have "\<exists>res used4.
      (case custom (i + 1) of
         Some custom_shift \<Rightarrow>
           and_then (merge_custom_data cont dr i custom_shift kind) (\<lambda>d. Inr (d, used0))
       | None \<Rightarrow> generate_automatic_data cont dr i kind used0) = Inr (res, used4) \<and>
      histories_present used4"
  proof (cases "custom (i + 1)")
    case None
    then show ?thesis
      using generate_automatic_data_returns [OF k(6,7) p h, of dr i] by simp
  next
    case (Some cs)
    have "\<forall>f \<in> set [''special_requests'', ''food_details'', ''complaints'', ''debrief''].
        has_candidates (narrative cont) f \<and> cs f \<noteq> Some NaN"
      using p t Some by simp
    then obtain res where "merge_custom_data cont dr i cs kind = Inr res"
      using merge_custom_data_returns [OF k(6,7), of cs dr i] by blast
    then have "(case custom (i + 1) of
         Some custom_shift \<Rightarrow>
           and_then (merge_custom_data cont dr i custom_shift kind) (\<lambda>d. Inr (d, used0))
       | None \<Rightarrow> generate_automatic_data cont dr i kind used0) = Inr (res, used0)"
      using Some by (simp add: and_then_def)
    with h show ?thesis by blast
  qed
  then obtain res used4 where b:
      "(case custom (i + 1) of
         Some custom_shift \<Rightarrow>
           and_then (merge_custom_data cont dr i custom_shift kind) (\<lambda>d. Inr (d, used0))
       | None \<Rightarrow> generate_automatic_data cont dr i kind used0) = Inr (res, used4)"
    and h4: "histories_present used4"
    by blast
  obtain prp sr fd co de where r: "res = (prp, sr, fd, co, de)" by (cases res) auto
  have "custom_shift_body cfg cont custom dr start i used0 =
      Inr (\<lparr>shift_number = i + 1, establishment = est, date = start + int (i div 2),
             shift_type = title kind, start_time = st, end_time = et, hours = hrs,
             menu_style = ms, prepared_service = prp, special_requests = sr,
             food_details = fd, complaints = co, debrief = de, workflow = wf\<rparr>, used4)"
    unfolding custom_shift_body_def Let_def kind_def [symmetric]
    using d k e b r by (simp add: add_days_def getkey_def getitem_def and_then_def)
  with h4 show ?thesis by blast
qed


lemma custom_shifts_loop_returns:
  assumes "inputs_complete cfg cont"
    and "\<forall>n cs. custom n = Some cs \<longrightarrow>
          (\<forall>f \<in> set [''special_requests'', ''food_details'', ''complaints'', ''debrief''].
             cs f \<noteq> Some NaN)"
  shows "histories_present used0 \<Longrightarrow> \<forall>i \<in> set idxs. start + int (i div 2) \<le> max_ordinal \<Longrightarrow>
     \<exists>shifts used1. custom_shifts_loop cfg cont custom dr start idxs used0 = Inr (shifts, used1)"
proof (induction idxs arbitrary: used0)
  case Nil
  then show ?case by simp
next
  case (Cons i rest)
  have "start + int (i div 2) \<le> max_ordinal" using Cons.prems(2) by simp
  then obtain s used1 where b: "custom_shift_body cfg cont custom dr start i used0 = Inr (s, used1)"
      and h: "histories_present used1"
    using custom_shift_body_returns [OF assms(1) Cons.prems(1) _ assms(2)] by blast
  obtain ss used2 where "custom_shifts_loop cfg cont custom dr start rest used1 = Inr (ss, used2)"
    using Cons.IH [OF h] Cons.prems(2) by auto
  with b show ?case
    by (simp add: and_then_def)
qed

lemma custom_generate_shifts_returns:
  assumes "cfg_start_date cfg = Some date_text" and "strptime date_text = Inr start"
    and "start + 23 \<le> max_ordinal" and "inputs_complete cfg cont"
    and "\<forall>n cs. custom n = Some cs \<longrightarrow>
          (\<forall>f \<in> set [''special_requests'', ''food_details'', ''complaints'', ''debrief''].
             cs f \<noteq> Some NaN)"
  shows "\<exists>shifts. custom_generate_shifts strptime cfg cont custom dr = Inr shifts"
proof -
  have "\<forall>i \<in> set [0..<48]. start + int (i div 2) \<le> max_ordinal"
    using assms(3) by auto
  then obtain shifts u where
    "custom_shifts_loop cfg cont custom dr start [0..<48] used_content_init = Inr (shifts, u)"
    using custom_shifts_loop_returns [OF assms(4,5) histories_present_init] by blast
  then show ?thesis
    using assms(1,2) by (simp add: custom_generate_shifts_def and_then_def getkey_def)
qed

lemma choose_unique_returns:
  "item_list \<noteq> [] \<Longrightarrow> \<exists>c h. choose_unique item_list history day gap r = (Inr c, h)"
  by (simp add: choose_unique_def choice_def Let_def)

lemma day_body_returns:
  assumes "recipes ''proteins'' = Some ps" and "ps \<noteq> []"
    and "recipes ''sauces'' = Some ss" and "ss \<noteq> []"
    and "recipes ''accompaniments'' = Some acs" and "acs \<noteq> []"
  shows "\<exists>d hs1. day_body recipes dr day hs = Inr (d, hs1)"
proof -
  obtain p hp where 1: "choose_unique ps (h_proteins hs) day 8 (dr (nat day) ''proteins'') = (Inr p, hp)"
    using choose_unique_returns [OF assms(2)] by blast
  obtain s hs1 where 2: "choose_unique ss (h_sauces hs) day 8 (dr (nat day) ''sauces'') = (Inr s, hs1)"
    using choose_unique_returns [OF assms(4)] by blast
  obtain a ha where 3: "choose_unique acs (h_accompaniments hs) day 8
      (dr (nat day) ''accompaniments'') = (Inr a, ha)"
    using choose_unique_returns [OF assms(6)] by blast
  show ?thesis
    using assms(1,3,5) 1 2 3
    by (simp add: day_body_def Let_def and_then_def getitem_def)
qed

lemma days_loop_returns:
  assumes "recipes ''proteins'' = Some ps" and "ps \<noteq> []"
    and "recipes ''sauces'' = Some ss" and "ss \<noteq> []"
    and "recipes ''accompaniments'' = Some acs" and "acs \<noteq> []"
  shows "\<exists>data. days_loop recipes dr days hs = Inr data"
proof (induction days arbitrary: hs)
  case Nil
  then show ?case by simp
next
  case (Cons day rest)
  obtain d hs1 where b: "day_body recipes dr day hs = Inr (d, hs1)"
    using day_body_returns [OF assms] by blast
  obtain ds where "days_loop recipes dr rest hs1 = Inr ds"
    using Cons.IH by blast
  with b show ?case by (simp add: and_then_def)
qed

lemma generate_shifts_schedule:
  assumes "cfg_start_date cfg = Some date_text" and "strptime date_text = Inr start"
    and "start + 23 \<le> max_ordinal" and "inputs_complete cfg cont"
  shows "map_sum id (map slot_of) (generate_shifts strptime cfg cont dr) =
     Inr (spec_schedule start 48 2 (spec_alternation [''Lunch'', ''Dinner'']))"
proof -
  have "\<exists>shifts. generate_shifts strptime cfg cont dr = Inr shifts \<and> length shifts = 48"
    unfolding generate_shifts_returns_iff using assms by blast
  then obtain shifts where g: "generate_shifts strptime cfg cont dr = Inr shifts" by blast
  show ?thesis
    using generate_shifts_slots [OF assms(1,2) g] g by simp
qed

lemma custom_generate_shifts_schedule:
  assumes "cfg_start_date cfg = Some date_text" and "strptime date_text = Inr start"
    and "start + 23 \<le> max_ordinal" and "inputs_complete cfg cont"
    and "\<forall>n cs. custom n = Some cs \<longrightarrow>
          (\<forall>f \<in> set [''special_requests'', ''food_details'', ''complaints'', ''debrief''].
             cs f \<noteq> Some NaN)"
  shows "map_sum id (map slot_of) (custom_generate_shifts strptime cfg cont custom dr) =
     Inr (spec_schedule start 48 2 (spec_alternation [''Lunch'', ''Dinner'']))"
proof -
  obtain shifts where g: "custom_generate_shifts strptime cfg cont custom dr = Inr shifts"
    using custom_generate_shifts_returns [of cfg date_text strptime start cont custom dr] assms by blast
  show ?thesis
    using custom_generate_shifts_slots [OF assms(1,2) g] g by simp
qed

lemma generate_shift_data_schedule:
  assumes "recipes ''proteins'' = Some ps" and "ps \<noteq> []"
    and "recipes ''sauces'' = Some ss" and "ss \<noteq> []"
    and "recipes ''accompaniments'' = Some acs" and "acs \<noteq> []"
  shows "map_sum id (map shift) (generate_shift_data recipes days dr) =
     Inr (map (spec_block_rotation 5 pattern) [0..<nat days])"
proof -
  obtain data where g: "generate_shift_data recipes days dr = Inr data"
    using days_loop_returns [OF assms] unfolding generate_shift_data_def by blast
  show ?thesis
    using generate_shift_data_kinds [OF g] g by simp
qed

subsection \<open>The schedules\<close>

lemma upt_0_48_three: "[0..<48] = 0 # 1 # 2 # [3..<48]"
  by (simp add: upt_conv_Cons)

lemma three_kinds_inputs_complete: "inputs_complete three_kinds_config example_content"
  by (simp add: inputs_complete_def kind_configured_def has_candidates_def example_config_def
      example_content_def three_kinds_config_def)

text \<open>
  C3 (amended). The generators take no shift count, no kinds list and no number of slots
  a day: the daily generators, automatic and custom, always schedule 48 shifts, two a
  day, alternating \<open>Lunch\<close> and \<open>Dinner\<close>, whatever kinds the configuration lists.
  With a start date that parses and is at least 23 days before the last date, and
  complete inputs (for the custom generator, no custom record holding a missing value
  in a narrative field), each of them returns exactly the specification's schedule for
  count 48, 2 slots a day and simple alternation over \<open>Lunch, Dinner\<close>: shift \<open>i\<close>
  (from 0) has the index \<open>i + 1\<close>, the date \<open>start + i div 2\<close> and the kind
  \<open>kinds[i mod 2]\<close>, whatever the random draws and the custom records; and whenever
  one of them returns at all, it returns that schedule. The rotation
  \<open>generate_shift_data\<close> takes the number of days only: its records carry a kind but
  no date and no index, and with three recipe lists present and not empty it returns
  one record a day, day \<open>i\<close> (from 0) having the kind \<open>pattern[(i div 5) mod 3]\<close>,
  block rotation with blocks of 5 over \<open>Preparation, Sauce, Garnish\<close>, whatever the
  draws; whenever it returns, these are the kinds.
\<close>

theorem schedule_follows_fixed_rotation:
  "(cfg_start_date cfg = Some date_text \<and> strptime date_text = Inr start \<and>
    start + 23 \<le> max_ordinal \<and> inputs_complete cfg cont \<longrightarrow>
      map_sum id (map slot_of) (generate_shifts strptime cfg cont dr) =
        Inr (spec_schedule start 48 2 (spec_alternation [''Lunch'', ''Dinner''])) \<and>
      ((\<forall>n cs. custom n = Some cs \<longrightarrow>
          (\<forall>f \<in> set [''special_requests'', ''food_details'', ''complaints'', ''debrief''].
             cs f \<noteq> Some NaN)) \<longrightarrow>
       map_sum id (map slot_of) (custom_generate_shifts strptime cfg cont custom dr) =
         Inr (spec_schedule start 48 2 (spec_alternation [''Lunch'', ''Dinner''])))) \<and>
   (cfg_start_date cfg = Some date_text \<and> strptime date_text = Inr start \<longrightarrow>
      (\<forall>shifts. generate_shifts strptime cfg cont dr = Inr shifts \<longrightarrow>
         map slot_of shifts =
           spec_schedule start 48 2 (spec_alternation [''Lunch'', ''Dinner''])) \<and>
      (\<forall>shifts. custom_generate_shifts strptime cfg cont custom dr = Inr shifts \<longrightarrow>
         map slot_of shifts =
           spec_schedule start 48 2 (spec_alternation [''Lunch'', ''Dinner'']))) \<and>
   (recipes ''proteins'' = Some ps \<and> ps \<noteq> [] \<and> recipes ''sauces'' = Some ss \<and> ss \<noteq> [] \<and>
    recipes ''accompaniments'' = Some acs \<and> acs \<noteq> [] \<longrightarrow>
      map_sum id (map shift) (generate_shift_data recipes days dr2) =
        Inr (map (spec_block_rotation 5 pattern) [0..<nat days])) \<and>
   (\<forall>data. generate_shift_data recipes days dr2 = Inr data \<longrightarrow>
      map shift data = map (spec_block_rotation 5 pattern) [0..<nat days])"
proof -
  have A: "cfg_start_date cfg = Some date_text \<and> strptime date_text = Inr start \<and>
    start + 23 \<le> max_ordinal \<and> inputs_complete cfg cont \<longrightarrow>
      map_sum id (map slot_of) (generate_shifts strptime cfg cont dr) =
        Inr (spec_schedule start 48 2 (spec_alternation [''Lunch'', ''Dinner''])) \<and>
      ((\<forall>n cs. custom n = Some cs \<longrightarrow>
          (\<forall>f \<in> set [''special_requests'', ''food_details'', ''complaints'', ''debrief''].
             cs f \<noteq> Some NaN)) \<longrightarrow>
       map_sum id (map slot_of) (custom_generate_shifts strptime cfg cont custom dr) =
         Inr (spec_schedule start 48 2 (spec_alternation [''Lunch'', ''Dinner''])))"
    using generate_shifts_schedule [of cfg date_text strptime start cont dr]
      custom_generate_shifts_schedule [of cfg date_text strptime start cont custom dr]
    by blast
  have B: "cfg_start_date cfg = Some date_text \<and> strptime date_text = Inr start \<longrightarrow>
      (\<forall>shifts. generate_shifts strptime cfg cont dr = Inr shifts \<longrightarrow>
         map slot_of shifts =
           spec_schedule start 48 2 (spec_alternation [''Lunch'', ''Dinner''])) \<and>
      (\<forall>shifts. custom_generate_shifts strptime cfg cont custom dr = Inr shifts \<longrightarrow>
         map slot_of shifts =
           spec_schedule start 48 2 (spec_alternation [''Lunch'', ''Dinner'']))"
    using generate_shifts_slots [of cfg date_text strptime start cont dr]
      custom_generate_shifts_slots [of cfg date_text strptime start cont custom dr]
    by blast
  have C: "recipes ''proteins'' = Some ps \<and> ps \<noteq> [] \<and> recipes ''sauces'' = Some ss \<and> ss \<noteq> [] \<and>
    recipes ''accompaniments'' = Some acs \<and> acs \<noteq> [] \<longrightarrow>
      map_sum id (map shift) (generate_shift_data recipes days dr2) =
        Inr (map (spec_block_rotation 5 pattern) [0..<nat days])"
    using generate_shift_data_schedule [of recipes ps ss acs days dr2] by blast
  have D: "\<forall>data. generate_shift_data recipes days dr2 = Inr data \<longrightarrow>
      map shift data = map (spec_block_rotation 5 pattern) [0..<nat days]"
    using generate_shift_data_kinds [of recipes days dr2] by blast
  show ?thesis by (intro conjI A B C D)
qed

theorem schedule_follows_fixed_rotation_witness:
  "map_sum id (map slot_of)
     (generate_shifts example_strptime example_config example_content (\<lambda>i field. i)) =
     Inr (spec_schedule 738886 48 2 (spec_alternation [''Lunch'', ''Dinner''])) \<and>
   map_sum id (map slot_of)
     (custom_generate_shifts example_strptime example_config example_content
        [2 \<mapsto> [''food_details'' \<mapsto> Str ''My dish.'']] (\<lambda>i field. i)) =
     Inr (spec_schedule 738886 48 2 (spec_alternation [''Lunch'', ''Dinner''])) \<and>
   take 3 (spec_schedule 738886 48 2 (spec_alternation [''Lunch'', ''Dinner''])) =
     [(1, 738886, ''Lunch''), (2, 738886, ''Dinner''), (3, 738887, ''Lunch'')] \<and>
   map_sum id (map shift)
     (generate_shift_data
        [''proteins'' \<mapsto> [''p1'', ''p2''], ''sauces'' \<mapsto> [''s1''], ''accompaniments'' \<mapsto> [''a1'']]
        6 (\<lambda>day field. 0)) =
     Inr [''Preparation'', ''Preparation'', ''Preparation'', ''Preparation'', ''Preparation'',
          ''Sauce'']"
proof -
  have d: "cfg_start_date example_config = Some ''2024-01-01''"
    by (simp add: example_config_def)
  have p: "example_strptime ''2024-01-01'' = Inr 738886"
    by (simp add: example_strptime_def)
  have m: "(738886::int) + 23 \<le> max_ordinal"
    by (simp add: max_ordinal_def)
  have c: "\<forall>n cs. [2 \<mapsto> [''food_details'' \<mapsto> Str ''My dish.'']] n = Some cs \<longrightarrow>
      (\<forall>f \<in> set [''special_requests'', ''food_details'', ''complaints'', ''debrief''].
         cs f \<noteq> Some NaN)"
    by (auto split: if_splits)
  have r: "[''proteins'' \<mapsto> [''p1'', ''p2''], ''sauces'' \<mapsto> [''s1''], ''accompaniments'' \<mapsto> [''a1'']]
        ''proteins'' = Some [''p1'', ''p2''] \<and> [''p1'', ''p2''] \<noteq> [] \<and>
      [''proteins'' \<mapsto> [''p1'', ''p2''], ''sauces'' \<mapsto> [''s1''], ''accompaniments'' \<mapsto> [''a1'']]
        ''sauces'' = Some [''s1''] \<and> [''s1''] \<noteq> [] \<and>
      [''proteins'' \<mapsto> [''p1'', ''p2''], ''sauces'' \<mapsto> [''s1''], ''accompaniments'' \<mapsto> [''a1'']]
        ''accompaniments'' = Some [''a1''] \<and> [''a1''] \<noteq> []"
    by simp
  have rot: "map (spec_block_rotation 5 pattern) [0..<nat 6] =
      [''Preparation'', ''Preparation'', ''Preparation'', ''Preparation'', ''Preparation'',
       ''Sauce'']"
    by (simp add: spec_block_rotation_def pattern_def upt_rec)
  have two: "(2::nat) mod Suc (Suc 0) = 0"
    by arith
  have t: "take 3 (spec_schedule 738886 48 2 (spec_alternation [''Lunch'', ''Dinner''])) =
     [(1, 738886, ''Lunch''), (2, 738886, ''Dinner''), (3, 738887, ''Lunch'')]"
    by (simp add: spec_schedule_def spec_alternation_def upt_0_48_three two)
  have all: "map_sum id (map slot_of)
     (generate_shifts example_strptime example_config example_content (\<lambda>i field. i)) =
     Inr (spec_schedule 738886 48 2 (spec_alternation [''Lunch'', ''Dinner''])) \<and>
   map_sum id (map slot_of)
     (custom_generate_shifts example_strptime example_config example_content
        [2 \<mapsto> [''food_details'' \<mapsto> Str ''My dish.'']] (\<lambda>i field. i)) =
     Inr (spec_schedule 738886 48 2 (spec_alternation [''Lunch'', ''Dinner''])) \<and>
   map_sum id (map shift)
     (generate_shift_data
        [''proteins'' \<mapsto> [''p1'', ''p2''], ''sauces'' \<mapsto> [''s1''], ''accompaniments'' \<mapsto> [''a1'']]
        6 (\<lambda>day field. 0)) =
     Inr (map (spec_block_rotation 5 pattern) [0..<nat 6])"
    using schedule_follows_fixed_rotation
      [of example_config "''2024-01-01''" example_strptime 738886 example_content
        "\<lambda>i field. i" "[2 \<mapsto> [''food_details'' \<mapsto> Str ''My dish.'']]"
        "[''proteins'' \<mapsto> [''p1'', ''p2''], ''sauces'' \<mapsto> [''s1''], ''accompaniments'' \<mapsto> [''a1'']]"
        "[''p1'', ''p2'']" "[''s1'']" "[''a1'']" 6 "\<lambda>day field. 0"]
      d p m c r example_inputs_complete
    by blast
  show ?thesis
    using all t unfolding rot by blast
qed

text \<open>
  The claim as stated fails for some start dates and some kinds lists: from the last
  date, 9999-12-31, the daily generator raises \<open>OverflowError\<close> at the third shift
  and schedules nothing, where the specification's schedule has 48 slots; and with three
  kinds configured it still alternates two, the third shift being a \<open>Lunch\<close> where
  alternation over the three kinds gives the third kind.
\<close>

theorem schedule_not_parametric:
  "generate_shifts (\<lambda>date_text. Inr max_ordinal) example_config example_content (\<lambda>i field. 0) =
     Inl OverflowError \<and>
   spec_schedule max_ordinal 48 2 (spec_alternation [''Lunch'', ''Dinner'']) \<noteq> [] \<and>
   map_sum id (map slot_of)
     (generate_shifts example_strptime three_kinds_config example_content (\<lambda>i field. 0)) =
     Inr (spec_schedule 738886 48 2 (spec_alternation [''Lunch'', ''Dinner''])) \<and>
   spec_schedule 738886 48 2 (spec_alternation [''Lunch'', ''Dinner'']) ! 2 = (3, 738887, ''Lunch'') \<and>
   spec_schedule 738886 48 2 (spec_alternation [''Lunch'', ''Dinner'', ''Supper'']) ! 2 =
     (3, 738887, ''Supper'')"
proof -
  have a: "generate_shifts (\<lambda>date_text. Inr max_ordinal) example_config example_content
      (\<lambda>i field. 0) = Inl OverflowError"
    by (simp add: generate_shifts_def upt_0_48_three shift_body_def varied_fields_def
      get_varied_content_def choice_def and_then_def getkey_def getitem_def add_days_def
      max_ordinal_def used_content_init_def example_config_def example_content_def Let_def)
  have b: "spec_schedule max_ordinal 48 2 (spec_alternation [''Lunch'', ''Dinner'']) \<noteq> []"
    by (simp add: spec_schedule_def)
  have d: "cfg_start_date three_kinds_config = Some ''2024-01-01''"
    by (simp add: three_kinds_config_def example_config_def)
  have p: "example_strptime ''2024-01-01'' = Inr 738886"
    by (simp add: example_strptime_def)
  have m: "(738886::int) + 23 \<le> max_ordinal"
    by (simp add: max_ordinal_def)
  have c: "map_sum id (map slot_of)
     (generate_shifts example_strptime three_kinds_config example_content (\<lambda>i field. 0)) =
     Inr (spec_schedule 738886 48 2 (spec_alternation [''Lunch'', ''Dinner'']))"
    using generate_shifts_schedule [of three_kinds_config "''2024-01-01''" example_strptime
        738886 example_content "\<lambda>i field. 0"] d p m three_kinds_inputs_complete
    by blast
  have e: "spec_schedule 738886 48 2 (spec_alternation [''Lunch'', ''Dinner'']) ! 2 =
      (3, 738887, ''Lunch'')"
    by (simp add: spec_schedule_def spec_alternation_def)
  have f: "spec_schedule 738886 48 2 (spec_alternation [''Lunch'', ''Dinner'', ''Supper'']) ! 2 =
     (3, 738887, ''Supper'')"
    by (simp add: spec_schedule_def spec_alternation_def)
  show ?thesis by (intro conjI a b c e f)
qed

subsection \<open>The counts of the summary report\<close>

lemma any_in_pool_Inr:
  "any_in_pool content_pools row cols = Inr b \<Longrightarrow>
   b = (\<exists>(col, key) \<in> set cols.
          case row col of
            None \<Rightarrow> False
          | Some v \<Rightarrow> cell_in v (case content_pools key of None \<Rightarrow> [] | Some pool \<Rightarrow> pool))"
proof (induction cols)
  case Nil
  then show ?case by simp
next
  case (Cons c cols)
  obtain col key where c: "c = (col, key)" by (cases c)
  obtain v where v: "row col = Some v"
    and r: "(if cell_in v (case content_pools key of None \<Rightarrow> [] | Some pool \<Rightarrow> pool) then Inr True
         else any_in_pool content_pools row cols) = Inr b"
    using Cons.prems by (auto simp: c and_then_Inr_iff getitem_Inr_iff)
  show ?case
  proof (cases "cell_in v (case content_pools key of None \<Rightarrow> [] | Some pool \<Rightarrow> pool)")
    case True
    then have "b" using r by simp
    with True v show ?thesis by (simp add: c)
  next
    case False
    then have "any_in_pool content_pools row cols = Inr b" using r by simp
    from Cons.IH [OF this] False v show ?thesis by (simp add: c)
  qed
qed

lemma any_in_pool_report:
  "any_in_pool content_pools row report_columns = Inr b \<Longrightarrow> b = has_pool_text content_pools row"
  unfolding has_pool_text_def by (rule any_in_pool_Inr)

lemma any_in_pool_returns:
  "\<forall>(col, key) \<in> set cols. row col \<noteq> None \<Longrightarrow> \<exists>b. any_in_pool content_pools row cols = Inr b"
proof (induction cols)
  case Nil
  then show ?case by auto
next
  case (Cons c cols)
  obtain col key where c: "c = (col, key)" by (cases c)
  obtain v where v: "row col = Some v" using Cons.prems by (auto simp: c)
  obtain b where "any_in_pool content_pools row cols = Inr b"
    using Cons.IH Cons.prems by auto
  with v show ?case
    by (auto simp: c and_then_def getitem_def)
qed

lemma count_rows_Inr:
  "count_rows content_pools rows (m, a) = Inr (m', a') \<Longrightarrow>
   a' = a + length (filter (has_pool_text content_pools) rows) \<and>
   m' = m + length (filter (\<lambda>row. \<not> has_pool_text content_pools row) rows)"
proof (induction rows arbitrary: m a)
  case Nil
  then show ?case by simp
next
  case (Cons row rows)
  obtain b where b: "any_in_pool content_pools row report_columns = Inr b"
    and r: "(if b then count_rows content_pools rows (m, a + 1)
             else count_rows content_pools rows (m + 1, a)) = Inr (m', a')"
    using Cons.prems by (auto simp: and_then_Inr_iff)
  have hb: "b = has_pool_text content_pools row"
    using b by (rule any_in_pool_report)
  show ?case
  proof (cases b)
    case True
    then have "count_rows content_pools rows (m, a + 1) = Inr (m', a')" using r by simp
    from Cons.IH [OF this] True hb show ?thesis by simp
  next
    case False
    then have "count_rows content_pools rows (m + 1, a) = Inr (m', a')" using r by simp
    from Cons.IH [OF this] False hb show ?thesis by simp
  qed
qed

lemma count_rows_returns:
  "\<forall>row \<in> set rows. \<forall>(col, key) \<in> set report_columns. row col \<noteq> None \<Longrightarrow>
   \<exists>res. count_rows content_pools rows (m, a) = Inr res"
proof (induction rows arbitrary: m a)
  case Nil
  then show ?case by auto
next
  case (Cons row rows)
  have "\<forall>(col, key) \<in> set report_columns. row col \<noteq> None"
    using Cons.prems by simp
  then obtain b where b: "any_in_pool content_pools row report_columns = Inr b"
    using any_in_pool_returns by blast
  have "\<exists>res. count_rows content_pools rows (m, a + 1) = Inr res"
      "\<exists>res. count_rows content_pools rows (m + 1, a) = Inr res"
    using Cons.IH Cons.prems by simp_all
  with b show ?case
    by (auto simp: and_then_def)
qed

lemma length_filter_pointwise:
  "length xs = length ys \<Longrightarrow> \<forall>k < length xs. P (xs ! k) = Q (ys ! k) \<Longrightarrow>
   length (filter P xs) = length (filter Q ys)"
proof (induction xs ys rule: list_induct2)
  case Nil
  then show ?case by simp
next
  case (Cons x xs y ys)
  have h: "P x = Q y" using Cons.prems by (metis length_greater_0_conv list.distinct(1) nth_Cons_0 length_Cons zero_less_Suc)
  have "\<forall>k < length xs. P (xs ! k) = Q (ys ! k)"
  proof (intro allI impI)
    fix k assume "k < length xs"
    then have "Suc k < length (x # xs)" by simp
    then have "P ((x # xs) ! Suc k) = Q ((y # ys) ! Suc k)" using Cons.prems by blast
    then show "P (xs ! k) = Q (ys ! k)" by simp
  qed
  then have "length (filter P xs) = length (filter Q ys)" by (rule Cons.IH)
  with h show ?case by simp
qed

lemma filled_row_pool_text:
  assumes f: "fill_row content_pools dr index row = Inr f"
    and n: "\<forall>(col, key) \<in> set report_columns. \<forall>s. row col = Some (Str s) \<longrightarrow>
              s \<notin> set (case content_pools key of None \<Rightarrow> [] | Some pool \<Rightarrow> pool)"
  shows "has_pool_text content_pools f = has_blank row"
    and "\<forall>(col, key) \<in> set report_columns. f col \<noteq> None"
proof -
  have c: "\<forall>(col, key) \<in> set report_columns.
           \<exists>v. row col = Some v \<and>
             (if blank v then filled_from content_pools key (dr index col) (f col)
              else f col = Some v)"
    using f by (rule fill_row_Inr(1))
  have each: "(case f col of None \<Rightarrow> False
               | Some v \<Rightarrow> cell_in v (case content_pools key of None \<Rightarrow> [] | Some pool \<Rightarrow> pool))
            = (case row col of None \<Rightarrow> False | Some v \<Rightarrow> blank v) \<and> f col \<noteq> None"
    if m: "(col, key) \<in> set report_columns" for col key
  proof -
    obtain v where v: "row col = Some v"
      and r: "if blank v then filled_from content_pools key (dr index col) (f col)
              else f col = Some v"
      using c m by blast
    show ?thesis
    proof (cases "blank v")
      case True
      then obtain pool where "content_pools key = Some pool" "pool \<noteq> []"
          "f col = Some (Str (pool ! (dr index col mod length pool)))"
        using r by (auto simp: filled_from_def)
      with v True show ?thesis by simp
    next
      case False
      then have fc: "f col = Some v" using r by simp
      obtain s where s: "v = Str s" using False by (cases v) (auto simp: blank_def)
      have "s \<notin> set (case content_pools key of None \<Rightarrow> [] | Some pool \<Rightarrow> pool)"
        using n m v s by blast
      with fc v s False show ?thesis by simp
    qed
  qed
  show "has_pool_text content_pools f = has_blank row"
    unfolding has_pool_text_def has_blank_def using each by blast
  show "\<forall>(col, key) \<in> set report_columns. f col \<noteq> None"
    using each by blast
qed

lemma generate_summary_report_Inr_iff:
  "generate_summary_report content_pools columns df = Inr rep \<longleftrightarrow>
     ''shift_type'' \<in> set columns \<and>
     (\<exists>m a. count_rows content_pools df (0, 0) = Inr (m, a) \<and>
        rep = \<lparr>rep_total = length df,
               rep_lunch = length (filter (\<lambda>row. row ''shift_type'' = Some (Str ''lunch'')) df),
               rep_dinner = length (filter (\<lambda>row. row ''shift_type'' = Some (Str ''dinner'')) df),
               rep_manual = m, rep_auto = a\<rparr>)"
proof -
  have k: "length (filter ((\<lambda>v. v = Str s) \<circ>
        (\<lambda>row. case row ''shift_type'' of None \<Rightarrow> NaN | Some v \<Rightarrow> v)) df) =
      length (filter (\<lambda>row. row ''shift_type'' = Some (Str s)) df)" for s
    by (induction df) (auto split: option.splits)
  show ?thesis
    by (auto simp: generate_summary_report_def column_def Let_def and_then_Inr_iff k
        split: prod.splits)
qed

lemma generate_summary_report_no_column:
  "''shift_type'' \<notin> set columns \<Longrightarrow>
   generate_summary_report content_pools columns df = Inl (KeyError ''shift_type'')"
  by (simp add: generate_summary_report_def column_def and_then_def)

lemma report_counts_add_up:
  assumes "generate_summary_report content_pools columns df = Inr rep"
  shows "rep_total rep = length df \<and> rep_manual rep + rep_auto rep = length df"
proof -
  obtain m a where c: "count_rows content_pools df (0, 0) = Inr (m, a)"
    and r: "rep_total rep = length df" "rep_manual rep = m" "rep_auto rep = a"
    using assms unfolding generate_summary_report_Inr_iff by auto
  have "a = length (filter (has_pool_text content_pools) df)"
    and "m = length (filter (\<lambda>row. \<not> has_pool_text content_pools row) df)"
    using count_rows_Inr [OF c] by simp_all
  moreover have "length (filter (\<lambda>row. \<not> has_pool_text content_pools row) df) +
      length (filter (has_pool_text content_pools) df) = length df"
    using sum_length_filter_compl [of "has_pool_text content_pools" df] by simp
  ultimately show ?thesis using r by simp
qed

lemma report_after_fill:
  assumes f: "fill_missing_data content_pools dr df = Inr filled"
    and c: "''shift_type'' \<in> set columns"
    and n: "\<forall>row \<in> set df. \<forall>(col, key) \<in> set report_columns. \<forall>s. row col = Some (Str s) \<longrightarrow>
              s \<notin> set (case content_pools key of None \<Rightarrow> [] | Some pool \<Rightarrow> pool)"
  shows "\<exists>rep. generate_summary_report content_pools columns filled = Inr rep \<and>
     rep_total rep = length df \<and>
     rep_manual rep = length (filter (\<lambda>row. \<not> has_blank row) df) \<and>
     rep_auto rep = length (filter has_blank df)"
proof -
  have len: "length filled = length df"
    and rows: "\<forall>k < length df. fill_row content_pools dr (0 + k) (df ! k) = Inr (filled ! k)"
    using fill_rows_Inr [of content_pools dr 0 df filled] f
    by (simp_all add: fill_missing_data_def)
  have pt: "has_pool_text content_pools (filled ! k) = has_blank (df ! k)"
    and pr: "\<forall>(col, key) \<in> set report_columns. (filled ! k) col \<noteq> None"
    if k: "k < length df" for k
  proof -
    have a: "fill_row content_pools dr (0 + k) (df ! k) = Inr (filled ! k)"
      using rows k by blast
    have b: "\<forall>(col, key) \<in> set report_columns. \<forall>s. (df ! k) col = Some (Str s) \<longrightarrow>
              s \<notin> set (case content_pools key of None \<Rightarrow> [] | Some pool \<Rightarrow> pool)"
      using n k by simp
    show "has_pool_text content_pools (filled ! k) = has_blank (df ! k)"
      using filled_row_pool_text(1) [OF a b] .
    show "\<forall>(col, key) \<in> set report_columns. (filled ! k) col \<noteq> None"
      using filled_row_pool_text(2) [OF a b] .
  qed
  have "\<forall>row \<in> set filled. \<forall>(col, key) \<in> set report_columns. row col \<noteq> None"
    using pr len by (metis in_set_conv_nth)
  then obtain m a where res: "count_rows content_pools filled (0, 0) = Inr (m, a)"
    using count_rows_returns [of filled content_pools 0 0] by auto
  have a: "a = length (filter (has_pool_text content_pools) filled)"
    and m: "m = length (filter (\<lambda>row. \<not> has_pool_text content_pools row) filled)"
    using count_rows_Inr [OF res] by simp_all
  have e1: "length (filter (has_pool_text content_pools) filled) = length (filter has_blank df)"
    using len pt by (intro length_filter_pointwise) simp_all
  have e2: "length (filter (\<lambda>row. \<not> has_pool_text content_pools row) filled) =
      length (filter (\<lambda>row. \<not> has_blank row) df)"
    using len pt by (intro length_filter_pointwise) simp_all
  let ?rep = "\<lparr>rep_total = length filled,
       rep_lunch = length (filter (\<lambda>row. row ''shift_type'' = Some (Str ''lunch'')) filled),
       rep_dinner = length (filter (\<lambda>row. row ''shift_type'' = Some (Str ''dinner'')) filled),
       rep_manual = m, rep_auto = a\<rparr>"
  have "generate_summary_report content_pools columns filled = Inr ?rep"
    unfolding generate_summary_report_Inr_iff using c res by blast
  moreover have "rep_total ?rep = length df" using len by simp
  moreover have "rep_manual ?rep = length (filter (\<lambda>row. \<not> has_blank row) df)"
    using m e2 by simp
  moreover have "rep_auto ?rep = length (filter has_blank df)"
    using a e1 by simp
  ultimately show ?thesis by blast
qed

text \<open>
  C5 (amended). The summary counts shifts, the rows of the data frame, not fields, and
  no provenance flag is recorded: whenever the report is written, its manual and
  automatic counts add up to the number of rows, which is its total (and it is not
  written, \<open>KeyError\<close>, for a frame without a \<open>shift_type\<close> column). For input data in
  which no supplied cell equals a candidate of the pool of its column, the report on the
  filled data is written and counts as automatic exactly the rows that had a blank cell
  among the five narrative ones, and as manual the rows that had all five supplied.
\<close>

theorem report_counts_rows:
  "(generate_summary_report content_pools columns df = Inr rep \<longrightarrow>
      rep_total rep = length df \<and> rep_manual rep + rep_auto rep = length df) \<and>
   (''shift_type'' \<notin> set columns \<longrightarrow>
      generate_summary_report content_pools columns df = Inl (KeyError ''shift_type'')) \<and>
   (fill_missing_data content_pools dr df0 = Inr filled \<and> ''shift_type'' \<in> set columns \<and>
    (\<forall>row \<in> set df0. \<forall>(col, key) \<in> set report_columns. \<forall>s. row col = Some (Str s) \<longrightarrow>
       s \<notin> set (case content_pools key of None \<Rightarrow> [] | Some pool \<Rightarrow> pool)) \<longrightarrow>
      (\<exists>rep. generate_summary_report content_pools columns filled = Inr rep \<and>
         rep_total rep = length df0 \<and>
         rep_manual rep = length (filter (\<lambda>row. \<not> has_blank row) df0) \<and>
         rep_auto rep = length (filter has_blank df0)))"
proof -
  have A: "generate_summary_report content_pools columns df = Inr rep \<longrightarrow>
      rep_total rep = length df \<and> rep_manual rep + rep_auto rep = length df"
    using report_counts_add_up [of content_pools columns df rep] by blast
  have B: "''shift_type'' \<notin> set columns \<longrightarrow>
      generate_summary_report content_pools columns df = Inl (KeyError ''shift_type'')"
    using generate_summary_report_no_column [of columns content_pools df] by blast
  have C: "fill_missing_data content_pools dr df0 = Inr filled \<and> ''shift_type'' \<in> set columns \<and>
    (\<forall>row \<in> set df0. \<forall>(col, key) \<in> set report_columns. \<forall>s. row col = Some (Str s) \<longrightarrow>
       s \<notin> set (case content_pools key of None \<Rightarrow> [] | Some pool \<Rightarrow> pool)) \<longrightarrow>
      (\<exists>rep. generate_summary_report content_pools columns filled = Inr rep \<and>
         rep_total rep = length df0 \<and>
         rep_manual rep = length (filter (\<lambda>row. \<not> has_blank row) df0) \<and>
         rep_auto rep = length (filter has_blank df0))"
    using report_after_fill [of content_pools dr df0 filled columns] by blast
  show ?thesis
    by (intro conjI A B C)
qed

lemma report_eval_simps:
  "fill_missing_data content_pools dr df = fill_rows content_pools dr 0 df"
  by (simp add: fill_missing_data_def)

theorem report_counts_rows_witness:
  "map_sum id (\<lambda>rep. (rep_total rep, rep_manual rep, rep_auto rep))
     (and_then
        (fill_missing_data example_pools (\<lambda>index col. 0)
           [example_row(''food_details'' \<mapsto> Str ''My dish.''),
            example_row(''food_details'' \<mapsto> NaN)])
        (generate_summary_report example_pools example_columns)) = Inr (2, 1, 1) \<and>
   generate_summary_report example_pools [''food_details''] [example_row] =
     Inl (KeyError ''shift_type'')"
  using report_counts_rows
    [of example_pools "[''food_details'']" "[example_row]" _ "\<lambda>index col. 0"
      "[example_row(''food_details'' \<mapsto> Str ''My dish.''), example_row(''food_details'' \<mapsto> NaN)]"]
  by (simp add: report_eval_simps generate_summary_report_def column_def fill_row_def
      fill_cell_def blank_def choice_def and_then_def getitem_def report_columns_def
      example_pools_def example_row_def example_columns_def Let_def)

text \<open>
  The claim as stated fails: for one row with all five cells supplied by hand, none of
  them a candidate of a pool, the report counts 1 manual and 0 automatic, while 5
  fields were resolved from the override and 0 from a pool.
\<close>

theorem report_counts_rows_not_fields:
  "map_sum id (\<lambda>rep. (rep_manual rep, rep_auto rep))
     (and_then
        (fill_missing_data example_pools (\<lambda>index col. 0)
           [example_row(''food_details'' \<mapsto> Str ''My dish.'')])
        (generate_summary_report example_pools example_columns)) = Inr (1, 0) \<and>
   override_fields [example_row(''food_details'' \<mapsto> Str ''My dish.'')] = 5 \<and>
   pool_fields [example_row(''food_details'' \<mapsto> Str ''My dish.'')] = 0"
  by (simp add: report_eval_simps generate_summary_report_def column_def fill_row_def
      fill_cell_def blank_def choice_def and_then_def getitem_def report_columns_def
      example_pools_def example_row_def example_columns_def override_fields_def
      pool_fields_def Let_def)

subsection \<open>Custom shifts and the histories\<close>

lemma and_then_Inr: "and_then (Inr x) f = f x"
  by (simp add: and_then_def)

lemma and_then_assoc: "and_then (and_then m f) g = and_then m (\<lambda>x. and_then (f x) g)"
  by (cases m) (simp_all add: and_then_def)

lemma map_sum_and_then: "map_sum id g (and_then m f) = and_then m (\<lambda>x. map_sum id g (f x))"
  by (cases m) (simp_all add: and_then_def)

lemma custom_shift_body_any_history:
  assumes "custom (i + 1) = Some cs"
  shows "custom_shift_body cfg cont custom dr start i u =
     map_sum id (\<lambda>(s, used1). (s, u)) (custom_shift_body cfg cont custom dr start i used0)"
  using assms
  by (simp add: custom_shift_body_def Let_def map_sum_and_then and_then_assoc and_then_Inr
      split_def)

lemma custom_shift_body_frame:
  assumes "custom (i + 1) = Some cs"
    and "custom_shift_body cfg cont custom dr start i used0 = Inr (s, used1)"
  shows "used1 = used0" and "custom_shift_body cfg cont custom dr start i u = Inr (s, u)"
proof -
  show "custom_shift_body cfg cont custom dr start i u = Inr (s, u)"
    using custom_shift_body_any_history [of custom i cs cfg cont dr start u used0] assms
    by simp
  show "used1 = used0"
    using custom_shift_body_any_history [of custom i cs cfg cont dr start used0 used0] assms
    by simp
qed

lemma custom_shift_body_fields:
  assumes "custom (i + 1) = Some cs"
    and "custom_shift_body cfg cont custom dr start i used0 = Inr (s, used1)"
  shows "\<exists>prep. merge_custom_data cont dr i cs (if i mod 2 = 0 then ''lunch'' else ''dinner'') =
      Inr (prep, special_requests s, food_details s, complaints s, debrief s)"
  using assms
  by (auto simp: custom_shift_body_def Let_def and_then_Inr_iff split: prod.splits)

lemma custom_shift_body_automatic:
  assumes "custom (i + 1) = None"
  shows "custom_shift_body cfg cont custom dr start i used0 =
         custom_shift_body cfg cont Map.empty dr start i used0"
  using assms by (simp add: custom_shift_body_def)

lemma custom_shift_body_number:
  assumes "custom_shift_body cfg cont custom dr start i used0 = Inr (s, used1)"
  shows "shift_number s = i + 1"
  using custom_shift_body_slot [OF assms] by (simp add: slot_of_def)

lemma custom_shifts_loop_automatic_only:
  "custom_shifts_loop cfg cont custom dr start idxs used0 = Inr (shifts, used1) \<Longrightarrow>
   custom_shifts_loop cfg cont Map.empty dr start (filter (\<lambda>i. custom (i + 1) = None) idxs) used0 =
     Inr (filter (\<lambda>s. custom (shift_number s) = None) shifts, used1)"
proof (induction idxs arbitrary: used0 shifts used1)
  case Nil
  then show ?case by simp
next
  case (Cons i rest)
  then obtain s u1 ss u2 where b: "custom_shift_body cfg cont custom dr start i used0 = Inr (s, u1)"
      and l: "custom_shifts_loop cfg cont custom dr start rest u1 = Inr (ss, u2)"
      and e: "shifts = s # ss" "used1 = u2"
    by (auto simp: and_then_Inr_iff split: prod.splits)
  note ih = Cons.IH [OF l]
  have n: "shift_number s = i + 1" using b by (rule custom_shift_body_number)
  show ?case
  proof (cases "custom (i + 1)")
    case None
    then have "custom_shift_body cfg cont Map.empty dr start i used0 = Inr (s, u1)"
      using b custom_shift_body_automatic [of custom i cfg cont dr start used0] by simp
    with None ih e n show ?thesis
      by (simp add: and_then_def)
  next
    case (Some cs)
    have "u1 = used0"
      using custom_shift_body_frame(1) [of custom i cs cfg cont dr start used0 s u1] Some b
      by blast
    with Some ih e n show ?thesis by simp
  qed
qed


lemma custom_shift_body_draws:
  assumes "custom (i + 1) = Some cs"
    and "custom_shift_body cfg cont custom dr start i used0 = Inr (s, used1)"
  shows "\<forall>(f, x) \<in> set [(''special_requests'', special_requests s),
            (''food_details'', food_details s), (''complaints'', complaints s),
            (''debrief'', debrief s)].
           cs f = None \<or> (\<exists>t. cs f = Some (Str t) \<and> strip t = []) \<longrightarrow>
           (\<exists>pool. narrative cont f = Some pool \<and> pool \<noteq> [] \<and>
              x = pool ! (dr i f mod length pool))"
proof -
  obtain prep where m: "merge_custom_data cont dr i cs (if i mod 2 = 0 then ''lunch'' else ''dinner'') =
      Inr (prep, special_requests s, food_details s, complaints s, debrief s)"
    using custom_shift_body_fields [of custom i cs cfg cont dr start used0 s used1] assms by blast
  note f = merge_custom_data_Inr [OF m]
  have 1: "cs ''special_requests'' = None \<or>
      (\<exists>t. cs ''special_requests'' = Some (Str t) \<and> strip t = []) \<longrightarrow>
      (\<exists>pool. narrative cont ''special_requests'' = Some pool \<and> pool \<noteq> [] \<and>
         special_requests s = pool ! (dr i ''special_requests'' mod length pool))"
    using custom_field_Inr [of "narrative cont" cs "''special_requests''"
        "dr i ''special_requests''" "special_requests s"] f by blast
  have 2: "cs ''food_details'' = None \<or>
      (\<exists>t. cs ''food_details'' = Some (Str t) \<and> strip t = []) \<longrightarrow>
      (\<exists>pool. narrative cont ''food_details'' = Some pool \<and> pool \<noteq> [] \<and>
         food_details s = pool ! (dr i ''food_details'' mod length pool))"
    using custom_field_Inr [of "narrative cont" cs "''food_details''"
        "dr i ''food_details''" "food_details s"] f by blast
  have 3: "cs ''complaints'' = None \<or>
      (\<exists>t. cs ''complaints'' = Some (Str t) \<and> strip t = []) \<longrightarrow>
      (\<exists>pool. narrative cont ''complaints'' = Some pool \<and> pool \<noteq> [] \<and>
         complaints s = pool ! (dr i ''complaints'' mod length pool))"
    using custom_field_Inr [of "narrative cont" cs "''complaints''"
        "dr i ''complaints''" "complaints s"] f by blast
  have 4: "cs ''debrief'' = None \<or>
      (\<exists>t. cs ''debrief'' = Some (Str t) \<and> strip t = []) \<longrightarrow>
      (\<exists>pool. narrative cont ''debrief'' = Some pool \<and> pool \<noteq> [] \<and>
         debrief s = pool ! (dr i ''debrief'' mod length pool))"
    using custom_field_Inr [of "narrative cont" cs "''debrief''"
        "dr i ''debrief''" "debrief s"] f by blast
  show ?thesis
    using 1 2 3 4 by simp
qed

lemma custom_shifts_loop_mixture_returns:
  assumes "inputs_complete cfg cont" and "histories_present used0"
    and "\<forall>i \<in> set idxs. start + int (i div 2) \<le> max_ordinal"
    and "\<forall>n cs. custom n = Some cs \<longrightarrow>
          (\<forall>f \<in> set [''special_requests'', ''food_details'', ''complaints'', ''debrief''].
             cs f \<noteq> Some NaN)"
  shows "\<exists>shifts used1.
     custom_shifts_loop cfg cont custom dr start idxs used0 = Inr (shifts, used1) \<and>
     custom_shifts_loop cfg cont Map.empty dr start (filter (\<lambda>i. custom (i + 1) = None) idxs)
       used0 = Inr (filter (\<lambda>s. custom (shift_number s) = None) shifts, used1)"
proof -
  obtain shifts used1 where
    l: "custom_shifts_loop cfg cont custom dr start idxs used0 = Inr (shifts, used1)"
    using custom_shifts_loop_returns [of cfg cont custom used0 idxs start dr] assms by blast
  show ?thesis
    using l custom_shifts_loop_automatic_only [OF l] by blast
qed


text \<open>
  C10. A shift with a custom record neither reads nor writes the histories: the loop
  body returns the histories it was given, and the same shift whatever histories it is
  given; each narrative field the record leaves absent or blank is the candidate the
  draw picks in the whole pool, recent or not. So after any mixture of custom and
  automatic shifts the histories, and the automatic shifts, are those of the loop run
  on the automatic indices alone with no custom record, in order; and with complete
  inputs the loop does return.
\<close>

theorem custom_shift_leaves_history:
  "(custom (i + 1) = Some cs \<and>
    custom_shift_body cfg cont custom dr start i used0 = Inr (s, used1) \<longrightarrow>
      used1 = used0 \<and>
      (\<forall>u. custom_shift_body cfg cont custom dr start i u = Inr (s, u)) \<and>
      (\<forall>(f, x) \<in> set [(''special_requests'', special_requests s),
            (''food_details'', food_details s), (''complaints'', complaints s),
            (''debrief'', debrief s)].
         cs f = None \<or> (\<exists>t. cs f = Some (Str t) \<and> strip t = []) \<longrightarrow>
         (\<exists>pool. narrative cont f = Some pool \<and> pool \<noteq> [] \<and>
            x = pool ! (dr i f mod length pool)))) \<and>
   (\<forall>shifts used2.
      custom_shifts_loop cfg cont custom dr start idxs used0 = Inr (shifts, used2) \<longrightarrow>
      custom_shifts_loop cfg cont Map.empty dr start
        (filter (\<lambda>i. custom (i + 1) = None) idxs) used0 =
        Inr (filter (\<lambda>s. custom (shift_number s) = None) shifts, used2)) \<and>
   (inputs_complete cfg cont \<and> histories_present used0 \<and>
    (\<forall>i \<in> set idxs. start + int (i div 2) \<le> max_ordinal) \<and>
    (\<forall>n cs. custom n = Some cs \<longrightarrow>
       (\<forall>f \<in> set [''special_requests'', ''food_details'', ''complaints'', ''debrief''].
          cs f \<noteq> Some NaN)) \<longrightarrow>
      (\<exists>shifts used2.
         custom_shifts_loop cfg cont custom dr start idxs used0 = Inr (shifts, used2) \<and>
         custom_shifts_loop cfg cont Map.empty dr start
           (filter (\<lambda>i. custom (i + 1) = None) idxs) used0 =
           Inr (filter (\<lambda>s. custom (shift_number s) = None) shifts, used2)))"
proof -
  have A: "custom (i + 1) = Some cs \<and>
    custom_shift_body cfg cont custom dr start i used0 = Inr (s, used1) \<longrightarrow>
      used1 = used0 \<and>
      (\<forall>u. custom_shift_body cfg cont custom dr start i u = Inr (s, u)) \<and>
      (\<forall>(f, x) \<in> set [(''special_requests'', special_requests s),
            (''food_details'', food_details s), (''complaints'', complaints s),
            (''debrief'', debrief s)].
         cs f = None \<or> (\<exists>t. cs f = Some (Str t) \<and> strip t = []) \<longrightarrow>
         (\<exists>pool. narrative cont f = Some pool \<and> pool \<noteq> [] \<and>
            x = pool ! (dr i f mod length pool)))"
    using custom_shift_body_frame [of custom i cs cfg cont dr start used0 s used1]
      custom_shift_body_draws [of custom i cs cfg cont dr start used0 s used1]
    by blast
  have B: "\<forall>shifts used2.
      custom_shifts_loop cfg cont custom dr start idxs used0 = Inr (shifts, used2) \<longrightarrow>
      custom_shifts_loop cfg cont Map.empty dr start
        (filter (\<lambda>i. custom (i + 1) = None) idxs) used0 =
        Inr (filter (\<lambda>s. custom (shift_number s) = None) shifts, used2)"
    using custom_shifts_loop_automatic_only [of cfg cont custom dr start idxs used0] by blast
  have C: "inputs_complete cfg cont \<and> histories_present used0 \<and>
    (\<forall>i \<in> set idxs. start + int (i div 2) \<le> max_ordinal) \<and>
    (\<forall>n cs. custom n = Some cs \<longrightarrow>
       (\<forall>f \<in> set [''special_requests'', ''food_details'', ''complaints'', ''debrief''].
          cs f \<noteq> Some NaN)) \<longrightarrow>
      (\<exists>shifts used2.
         custom_shifts_loop cfg cont custom dr start idxs used0 = Inr (shifts, used2) \<and>
         custom_shifts_loop cfg cont Map.empty dr start
           (filter (\<lambda>i. custom (i + 1) = None) idxs) used0 =
           Inr (filter (\<lambda>s. custom (shift_number s) = None) shifts, used2))"
    using custom_shifts_loop_mixture_returns [of cfg cont used0 idxs start custom dr] by blast
  show ?thesis by (intro conjI A B C)
qed

lemmas run_simps = custom_shift_body_def merge_custom_data_def custom_field_def
  generate_automatic_data_def varied_fields_def get_varied_content_def choice_def and_then_def
  getkey_def getitem_def add_days_def max_ordinal_def used_content_init_def example_config_def
  example_content_def Let_def title_lunch title_dinner strip_simps

theorem custom_shift_leaves_history_witness:
  "custom_shift_body example_config example_content
     [2 \<mapsto> [''food_details'' \<mapsto> Str ''My dish.'']] (\<lambda>i field. 0) 738886 1
     (used_content_init(''special_requests'' \<mapsto> [''No gluten.''])) =
     Inr (\<lparr>shift_number = 2, establishment = ''Fatcow on James Street'',
            date = 738886, shift_type = ''Dinner'', start_time = ''16:00'',
            end_time = ''22:00'', hours = ''6'', menu_style = ''buffet'',
            prepared_service = Str ''Set up the dinner station.'',
            special_requests = ''No gluten.'', food_details = ''My dish.'',
            complaints = ''None.'', debrief = ''Busy.'', workflow = []\<rparr>,
          used_content_init(''special_requests'' \<mapsto> [''No gluten.''])) \<and>
   (\<exists>shifts used2.
      custom_shifts_loop example_config example_content
        [2 \<mapsto> [''food_details'' \<mapsto> Str ''My dish.'']] (\<lambda>i field. 0) 738886 [0, 1, 2]
        used_content_init = Inr (shifts, used2) \<and>
      custom_shifts_loop example_config example_content Map.empty (\<lambda>i field. 0) 738886 [0, 2]
        used_content_init =
        Inr (filter (\<lambda>s. [2 \<mapsto> [''food_details'' \<mapsto> Str ''My dish.'']] (shift_number s) = None)
               shifts, used2) \<and>
      map shift_number shifts = [1, 2, 3] \<and>
      map special_requests shifts = [''No gluten.'', ''No gluten.'', ''Sauce on the side.''] \<and>
      map food_details shifts = [''Burgers.'', ''My dish.'', ''Risotto.''] \<and>
      map used2 [''special_requests'', ''food_details'', ''complaints'', ''debrief''] =
        [Some [''No gluten.'', ''Sauce on the side.''], Some [''Burgers.'', ''Risotto.''],
         Some [''None.''], Some [''Busy.'', ''Quiet.'']])"
proof -
  let ?custom = "[2 \<mapsto> [''food_details'' \<mapsto> Str ''My dish.'']] :: custom_data"
  let ?s = "\<lparr>shift_number = 2, establishment = ''Fatcow on James Street'',
            date = 738886, shift_type = ''Dinner'', start_time = ''16:00'',
            end_time = ''22:00'', hours = ''6'', menu_style = ''buffet'',
            prepared_service = Str ''Set up the dinner station.'',
            special_requests = ''No gluten.'', food_details = ''My dish.'',
            complaints = ''None.'', debrief = ''Busy.'', workflow = []\<rparr>"
  have c: "?custom (1 + 1) = Some [''food_details'' \<mapsto> Str ''My dish.'']"
    by simp
  have b: "custom_shift_body example_config example_content ?custom (\<lambda>i field. 0) 738886 1
      used_content_init = Inr (?s, used_content_init)"
    by (simp add: run_simps)
  have run: "\<exists>shifts used2.
      custom_shifts_loop example_config example_content ?custom (\<lambda>i field. 0) 738886 [0, 1, 2]
        used_content_init = Inr (shifts, used2) \<and>
      map shift_number shifts = [1, 2, 3] \<and>
      map special_requests shifts = [''No gluten.'', ''No gluten.'', ''Sauce on the side.''] \<and>
      map food_details shifts = [''Burgers.'', ''My dish.'', ''Risotto.''] \<and>
      map used2 [''special_requests'', ''food_details'', ''complaints'', ''debrief''] =
        [Some [''No gluten.'', ''Sauce on the side.''], Some [''Burgers.'', ''Risotto.''],
         Some [''None.''], Some [''Busy.'', ''Quiet.'']]"
    by (simp add: run_simps)
  have f: "filter (\<lambda>i. ?custom (i + 1) = None) [0, 1, 2] = [0, 2]"
    by simp
  note t = custom_shift_leaves_history
      [of ?custom 1 "[''food_details'' \<mapsto> Str ''My dish.'']" example_config example_content
        "\<lambda>i field. 0" 738886 used_content_init ?s used_content_init "[0, 1, 2]"]
  have first: "custom_shift_body example_config example_content ?custom (\<lambda>i field. 0) 738886 1
     (used_content_init(''special_requests'' \<mapsto> [''No gluten.''])) =
     Inr (?s, used_content_init(''special_requests'' \<mapsto> [''No gluten.'']))"
    using t c b by blast
  have second: "\<forall>shifts used2.
      custom_shifts_loop example_config example_content ?custom (\<lambda>i field. 0) 738886 [0, 1, 2]
        used_content_init = Inr (shifts, used2) \<longrightarrow>
      custom_shifts_loop example_config example_content Map.empty (\<lambda>i field. 0) 738886 [0, 2]
        used_content_init =
        Inr (filter (\<lambda>s. ?custom (shift_number s) = None) shifts, used2)"
    using t unfolding f by blast
  obtain shifts used2 where
    r: "custom_shifts_loop example_config example_content ?custom (\<lambda>i field. 0) 738886
          [0, 1, 2] used_content_init = Inr (shifts, used2)"
    and m1: "map shift_number shifts = [1, 2, 3]"
    and m2: "map special_requests shifts = [''No gluten.'', ''No gluten.'', ''Sauce on the side.'']"
    and m3: "map food_details shifts = [''Burgers.'', ''My dish.'', ''Risotto.'']"
    and m4: "map used2 [''special_requests'', ''food_details'', ''complaints'', ''debrief''] =
        [Some [''No gluten.'', ''Sauce on the side.''], Some [''Burgers.'', ''Risotto.''],
         Some [''None.''], Some [''Busy.'', ''Quiet.'']]"
    using run by (elim exE conjE)
  have a: "custom_shifts_loop example_config example_content Map.empty (\<lambda>i field. 0) 738886
        [0, 2] used_content_init =
        Inr (filter (\<lambda>s. ?custom (shift_number s) = None) shifts, used2)"
    using second r by (elim allE impE)
  show ?thesis
    by (rule conjI [OF first], rule exI [of _ shifts], rule exI [of _ used2])
      (intro conjI r a m1 m2 m3 m4)
qed

end
